theory Spec2Isabelle
  imports Complex_Main "HOL-Library.Word" "HOL-Library.Multiset"
begin

section \<open>JavaScript strings\<close>

text \<open>
  A JavaScript string is a sequence of UTF-16 code units; \<open>length\<close>, \<open>substring\<close>,
  \<open>lastIndexOf\<close> and \<open>trim\<close> all count code units. Indices are JavaScript numbers; the
  code only ever uses integral ones, so they are modelled as \<open>int\<close> (they can be negative:
  \<open>mid - 50\<close>, \<open>end - overlap\<close>).
\<close>

type_synonym jschar = "16 word"
type_synonym jsstring = "jschar list"

definition js :: "string \<Rightarrow> jsstring" where
  \<comment> \<open>an ASCII literal of the source as code units\<close>
  "js s = map (\<lambda>c. of_nat (of_char c)) s"

definition isWhiteSpace :: "jschar \<Rightarrow> bool" where
  \<comment> \<open>the code units \<open>String.prototype.trim\<close> strips: ECMAScript WhiteSpace and LineTerminator\<close>
  "isWhiteSpace c \<longleftrightarrow>
     c = 0x0009 \<or> c = 0x000A \<or> c = 0x000B \<or> c = 0x000C \<or> c = 0x000D \<or> c = 0x0020 \<or>
     c = 0x00A0 \<or> c = 0x1680 \<or> (0x2000 \<le> c \<and> c \<le> 0x200A) \<or> c = 0x2028 \<or> c = 0x2029 \<or>
     c = 0x202F \<or> c = 0x205F \<or> c = 0x3000 \<or> c = 0xFEFF"

definition trim :: "jsstring \<Rightarrow> jsstring" where
  "trim s = rev (dropWhile isWhiteSpace (rev (dropWhile isWhiteSpace s)))"

definition substring :: "'a list \<Rightarrow> int \<Rightarrow> int \<Rightarrow> 'a list" where
  \<comment> \<open>\<open>s.substring(a, b)\<close>: both indices are clamped to \<open>[0, length]\<close> and swapped when \<open>a > b\<close>\<close>
  "substring s a b =
     (let n = int (length s);
          a' = max 0 (min a n);
          b' = max 0 (min b n);
          lo = min a' b';
          hi = max a' b'
      in take (nat (hi - lo)) (drop (nat lo) s))"

definition substringFrom :: "'a list \<Rightarrow> int \<Rightarrow> 'a list" where
  \<comment> \<open>\<open>s.substring(a)\<close>: the end index defaults to the length\<close>
  "substringFrom s a = substring s a (int (length s))"

fun lastIndexScan :: "'a list \<Rightarrow> 'a list \<Rightarrow> nat \<Rightarrow> int \<Rightarrow> int" where
  \<comment> \<open>scan left to right from position \<open>k\<close>, remembering the latest position where \<open>p\<close> starts\<close>
  "lastIndexScan [] p k best = (if p = [] then int k else best)"
| "lastIndexScan (c # cs) p k best =
     lastIndexScan cs p (Suc k) (if take (length p) (c # cs) = p then int k else best)"

definition lastIndexOf :: "'a list \<Rightarrow> 'a list \<Rightarrow> int" where
  \<comment> \<open>\<open>s.lastIndexOf(p)\<close>: the greatest index where \<open>p\<close> occurs in \<open>s\<close>, or \<open>-1\<close>\<close>
  "lastIndexOf s p = lastIndexScan s p 0 (- 1)"

section \<open>ChunkSplitter: \<open>chunkText\<close>\<close>

text \<open>
  The \<open>while\<close> loop of \<open>chunkText\<close>, with \<open>i\<close> the cursor and \<open>chunks\<close> the array being
  filled. For arbitrary \<open>size\<close> and \<open>overlap\<close> the loop need not end (a small \<open>size\<close> lets the
  cut point fall behind the cursor), so the loop is a partial function: \<open>None\<close> is "does not
  return".
\<close>

partial_function (option) chunkLoop ::
  "jsstring \<Rightarrow> int \<Rightarrow> int \<Rightarrow> int \<Rightarrow> jsstring list \<Rightarrow> jsstring list option" where
  "chunkLoop text size' overlap i chunks =
     (if i < int (length text) then
        (let end0 = i + size';
             end1 =
               (if end0 < int (length text) then
                  (let searchWindow = substring text (end0 - 100) (end0 + 20);
                       breakIdx =
                         (if lastIndexOf searchWindow (js ''. '') \<noteq> - 1
                            then lastIndexOf searchWindow (js ''. '') + 1
                          else if lastIndexOf searchWindow [0x000A] \<noteq> - 1
                            then lastIndexOf searchWindow [0x000A]
                          else lastIndexOf searchWindow (js '' ''))
                   in if breakIdx \<noteq> - 1 then (end0 - 100) + breakIdx + 1 else end0)
                else end0);
             chunks' = chunks @ [trim (substring text i end1)];
             i1 = end1 - overlap;
             i2 = (if i1 < 0 then 0 else i1);
             i3 = (if end1 \<le> i2 + overlap \<and> end1 < int (length text) then end1 else i2)
         in chunkLoop text size' overlap i3 chunks')
      else Some chunks)"

declare chunkLoop.simps [code]

definition chunkText :: "jsstring \<Rightarrow> int \<Rightarrow> int \<Rightarrow> jsstring list option" where
  "chunkText text size' overlap =
     map_option (filter (\<lambda>c. 10 < length c)) (chunkLoop text size' overlap 0 [])"


text \<open>
  The body of one iteration, named for the proofs: \<open>cutPoint\<close> is the value of \<open>end\<close> when the
  fragment is pushed, \<open>nextCursor\<close> the value of \<open>i\<close> at the end of the iteration.
\<close>

definition cutPoint :: "jsstring \<Rightarrow> int \<Rightarrow> int \<Rightarrow> int" where
  "cutPoint text size' i =
     (let end0 = i + size' in
        if end0 < int (length text) then
          (let searchWindow = substring text (end0 - 100) (end0 + 20);
               breakIdx =
                 (if lastIndexOf searchWindow (js ''. '') \<noteq> - 1
                    then lastIndexOf searchWindow (js ''. '') + 1
                  else if lastIndexOf searchWindow [0x000A] \<noteq> - 1
                    then lastIndexOf searchWindow [0x000A]
                  else lastIndexOf searchWindow (js '' ''))
           in if breakIdx \<noteq> - 1 then (end0 - 100) + breakIdx + 1 else end0)
        else end0)"

definition nextCursor :: "jsstring \<Rightarrow> int \<Rightarrow> int \<Rightarrow> int" where
  "nextCursor text overlap end1 =
     (let i1 = end1 - overlap;
          i2 = (if i1 < 0 then 0 else i1)
      in if end1 \<le> i2 + overlap \<and> end1 < int (length text) then end1 else i2)"

text \<open>
  The same loop, recording the source window \<open>(i, end)\<close> of each pushed fragment instead of
  its text. A window \<open>(a, b)\<close> stands for the positions \<open>a \<le> p < b\<close> of the input.
\<close>

partial_function (option) chunkWindows ::
  "jsstring \<Rightarrow> int \<Rightarrow> int \<Rightarrow> int \<Rightarrow> (int \<times> int) list \<Rightarrow> (int \<times> int) list option" where
  "chunkWindows text size' overlap i ws =
     (if i < int (length text) then
        chunkWindows text size' overlap (nextCursor text overlap (cutPoint text size' i))
          (ws @ [(i, cutPoint text size' i)])
      else Some ws)"

declare chunkWindows.simps [code]

definition fragment :: "jsstring \<Rightarrow> int \<times> int \<Rightarrow> jsstring" where
  \<comment> \<open>the fragment pushed for a window: \<open>text.substring(i, end).trim()\<close>\<close>
  "fragment text w = trim (substring text (fst w) (snd w))"

definition covers :: "(int \<times> int) list \<Rightarrow> int \<Rightarrow> int \<Rightarrow> bool" where
  \<comment> \<open>every position from \<open>lo\<close> up to \<open>hi - 1\<close> lies inside some window\<close>
  "covers ws lo hi \<longleftrightarrow> (\<forall>p \<in> {lo..<hi}. \<exists>w \<in> set ws. fst w \<le> p \<and> p < snd w)"

section \<open>IndexingPipeline: token-size correction and embedding with recovery\<close>

text \<open>
  \<open>ensureChunkSize\<close> awaits \<open>wllama.tokenize\<close>, here a function from texts to token lists, and
  calls itself on both trimmed halves. Nothing in its body bounds the recursion, so it is a
  partial function: \<open>None\<close> is "does not return".
\<close>

partial_function (option) ensureChunkSize ::
  "(jsstring \<Rightarrow> int list) \<Rightarrow> jsstring \<Rightarrow> jsstring list option" where
  "ensureChunkSize tokenize text =
     (if length (tokenize text) \<le> 300 then Some [text]
      else
        (let mid = int (length text) div 2;
             searchWindow = substring text (mid - 50) (mid + 50);
             spaceRelative = lastIndexOf searchWindow (js '' '');
             splitIdx = (if spaceRelative \<noteq> - 1 then mid - 50 + spaceRelative else mid);
             left = trim (substring text 0 splitIdx);
             right = trim (substringFrom text splitIdx)
         in Option.bind (if left \<noteq> [] then ensureChunkSize tokenize left else Some [])
              (\<lambda>l. Option.bind (if right \<noteq> [] then ensureChunkSize tokenize right else Some [])
                 (\<lambda>r. Some (l @ r)))))"

declare ensureChunkSize.simps [code]

text \<open>The split index and the two pieces of one bisection, named for the proofs.\<close>

definition splitIdx :: "jsstring \<Rightarrow> int" where
  "splitIdx text =
     (let mid = int (length text) div 2;
          searchWindow = substring text (mid - 50) (mid + 50);
          spaceRelative = lastIndexOf searchWindow (js '' '')
      in if spaceRelative \<noteq> - 1 then mid - 50 + spaceRelative else mid)"

definition leftPiece :: "jsstring \<Rightarrow> jsstring" where
  "leftPiece text = trim (substring text 0 (splitIdx text))"

definition rightPiece :: "jsstring \<Rightarrow> jsstring" where
  "rightPiece text = trim (substringFrom text (splitIdx text))"

definition tooMany :: "jsstring \<Rightarrow> int list" where
  \<comment> \<open>a tokenizer that answers 301 tokens for every text\<close>
  "tooMany t = replicate 301 0"

section \<open>JavaScript numbers\<close>

text \<open>
  Scores and vector components are IEEE doubles. A value is a finite number (a real; every
  finite double is one), an infinity or NaN, with the IEEE rules for the special values. The
  arithmetic on finite values is exact here, where doubles round and overflow, so
  \<open>cosineSimilarity\<close> below is used only for what rounding does not touch: the propagation of
  NaN, vectors of zeros, and examples on small integers. The sign of zero is not modelled (the
  only divisor in the code is a product of square roots, never \<open>-0\<close>).
\<close>

datatype jsnum = Fin real | PInf | NInf | NaN

fun jsNeg :: "jsnum \<Rightarrow> jsnum" where
  "jsNeg (Fin a) = Fin (- a)"
| "jsNeg PInf = NInf"
| "jsNeg NInf = PInf"
| "jsNeg NaN = NaN"

fun jsAdd :: "jsnum \<Rightarrow> jsnum \<Rightarrow> jsnum" where
  "jsAdd NaN _ = NaN"
| "jsAdd _ NaN = NaN"
| "jsAdd (Fin a) (Fin b) = Fin (a + b)"
| "jsAdd PInf NInf = NaN"
| "jsAdd NInf PInf = NaN"
| "jsAdd PInf _ = PInf"
| "jsAdd NInf _ = NInf"
| "jsAdd (Fin a) b = b"

definition jsSub :: "jsnum \<Rightarrow> jsnum \<Rightarrow> jsnum" where
  "jsSub a b = jsAdd a (jsNeg b)"

fun jsMul :: "jsnum \<Rightarrow> jsnum \<Rightarrow> jsnum" where
  "jsMul NaN _ = NaN"
| "jsMul _ NaN = NaN"
| "jsMul (Fin a) (Fin b) = Fin (a * b)"
| "jsMul (Fin a) PInf = (if a = 0 then NaN else if 0 < a then PInf else NInf)"
| "jsMul (Fin a) NInf = (if a = 0 then NaN else if 0 < a then NInf else PInf)"
| "jsMul PInf (Fin b) = (if b = 0 then NaN else if 0 < b then PInf else NInf)"
| "jsMul NInf (Fin b) = (if b = 0 then NaN else if 0 < b then NInf else PInf)"
| "jsMul PInf PInf = PInf"
| "jsMul NInf NInf = PInf"
| "jsMul PInf NInf = NInf"
| "jsMul NInf PInf = NInf"

fun jsDiv :: "jsnum \<Rightarrow> jsnum \<Rightarrow> jsnum" where
  "jsDiv NaN _ = NaN"
| "jsDiv _ NaN = NaN"
| "jsDiv (Fin a) (Fin b) =
     (if b = 0 then (if a = 0 then NaN else if 0 < a then PInf else NInf) else Fin (a / b))"
| "jsDiv (Fin a) _ = Fin 0"
| "jsDiv PInf (Fin b) = (if 0 \<le> b then PInf else NInf)"
| "jsDiv NInf (Fin b) = (if 0 \<le> b then NInf else PInf)"
| "jsDiv _ _ = NaN"

fun jsSqrt :: "jsnum \<Rightarrow> jsnum" where
  "jsSqrt (Fin a) = (if a < 0 then NaN else Fin (sqrt a))"
| "jsSqrt PInf = PInf"
| "jsSqrt _ = NaN"

fun isPositive :: "jsnum \<Rightarrow> bool" where
  \<comment> \<open>\<open>v > 0\<close>\<close>
  "isPositive (Fin a) = (0 < a)"
| "isPositive PInf = True"
| "isPositive _ = False"

fun jsLess :: "jsnum \<Rightarrow> jsnum \<Rightarrow> bool" where
  \<comment> \<open>\<open>a < b\<close>: false as soon as one side is NaN\<close>
  "jsLess NaN _ = False"
| "jsLess _ NaN = False"
| "jsLess (Fin a) (Fin b) = (a < b)"
| "jsLess NInf NInf = False"
| "jsLess NInf _ = True"
| "jsLess PInf _ = False"
| "jsLess (Fin a) PInf = True"
| "jsLess (Fin a) NInf = False"

definition zeroish :: "jsnum \<Rightarrow> bool" where
  \<comment> \<open>zero or NaN: what sums of products with zero can be\<close>
  "zeroish x \<longleftrightarrow> x = Fin 0 \<or> x = NaN"

type_synonym vector = "jsnum list"

section \<open>Embedding with failure recovery: \<open>processChunkSafe\<close>\<close>

text \<open>
  \<open>embeddings\<close> and \<open>safeChunks\<close> are the two arrays the handler fills (the first is named
  \<open>embeddingsAcc\<close> here, \<open>embeddings\<close> being a field of \<open>docState\<close> below). \<open>embedCalls\<close> is
  not in the source: it records, in order, the texts passed to \<open>wllama.embeddings\<close>, the
  effect the claim speaks about. The runtime call is a function \<open>embd\<close>: \<open>None\<close> when the call
  rejects (the \<open>catch\<close> branch), \<open>Some output\<close> when it resolves.
\<close>

record indexing =
  embeddingsAcc :: "vector list"
  safeChunks :: "jsstring list"
  embedCalls :: "jsstring list"

lemma length_trim_le: "length (trim s) \<le> length s"
proof -
  have "length (dropWhile P xs) \<le> length xs" for P and xs :: "'b list"
    by (induction xs) auto
  from this[of isWhiteSpace "rev (dropWhile isWhiteSpace s)"] this[of isWhiteSpace s]
  show ?thesis unfolding trim_def by simp
qed

lemma length_substring_prefix: "0 \<le> b \<Longrightarrow> length (substring s 0 b) \<le> nat b"
  by (simp add: substring_def Let_def)

lemma length_substringFrom: "0 \<le> a \<Longrightarrow> length (substringFrom s a) = length s - nat a"
  by (auto simp: substringFrom_def substring_def Let_def max_def min_def)

lemma left_half_shorter:
  "\<not> length s < 10 \<Longrightarrow> length (trim (substring s 0 (int (length s) div 2))) < length s"
  using length_trim_le[of "substring s 0 (int (length s) div 2)"]
    length_substring_prefix[of "int (length s) div 2" s]
  by simp

lemma right_half_shorter:
  "\<not> length s < 10 \<Longrightarrow> length (trim (substringFrom s (int (length s) div 2))) < length s"
  using length_trim_le[of "substringFrom s (int (length s) div 2)"]
    length_substringFrom[of "int (length s) div 2" s]
  by simp

function processChunkSafe ::
  "(jsstring \<Rightarrow> vector option) \<Rightarrow> jsstring \<Rightarrow> indexing \<Rightarrow> indexing" where
  "processChunkSafe embd text s =
     (case embd text of
        Some output \<Rightarrow>
          s\<lparr>embedCalls := embedCalls s @ [text],
            embeddingsAcc := embeddingsAcc s @ [output],
            safeChunks := safeChunks s @ [text]\<rparr>
      | None \<Rightarrow>
          (let s0 = s\<lparr>embedCalls := embedCalls s @ [text]\<rparr> in
             if length text < 10 then s0
             else
               (let mid = int (length text) div 2;
                    left = trim (substring text 0 mid);
                    right = trim (substringFrom text mid);
                    s1 = (if left \<noteq> [] then processChunkSafe embd left s0 else s0)
                in if right \<noteq> [] then processChunkSafe embd right s1 else s1)))"
  by pat_completeness auto
termination
  by (relation "measure (\<lambda>(embd, text, s). length text)")
    (simp_all add: left_half_shorter right_half_shorter)

definition retry :: "(jsstring \<Rightarrow> vector option) \<Rightarrow> jsstring \<Rightarrow> indexing \<Rightarrow> indexing" where
  \<comment> \<open>\<open>if (half) await processChunkSafe(half)\<close>\<close>
  "retry embd half s = (if half \<noteq> [] then processChunkSafe embd half s else s)"

definition noIndexing :: indexing where
  "noIndexing = \<lparr>embeddingsAcc = [], safeChunks = [], embedCalls = []\<rparr>"

definition appendIndexing :: "indexing \<Rightarrow> indexing \<Rightarrow> indexing" where
  \<comment> \<open>the three arrays of \<open>s\<close>, each followed by what \<open>d\<close> holds\<close>
  "appendIndexing s d =
     \<lparr>embeddingsAcc = embeddingsAcc s @ embeddingsAcc d,
      safeChunks = safeChunks s @ safeChunks d,
      embedCalls = embedCalls s @ embedCalls d\<rparr>"

definition halfRun :: "(jsstring \<Rightarrow> vector option) \<Rightarrow> jsstring \<Rightarrow> indexing" where
  \<comment> \<open>what the retry of one half adds: nothing for an empty half, else what
      \<open>processChunkSafe\<close> does on the half\<close>
  "halfRun embd half = (if half \<noteq> [] then processChunkSafe embd half noIndexing else noIndexing)"

definition shortOnly :: "jsstring \<Rightarrow> vector option" where
  \<comment> \<open>a runtime that embeds only texts shorter than 10 characters\<close>
  "shortOnly t = (if length t < 10 then Some [Fin 1] else None)"

section \<open>SimilarityRanker: \<open>cosineSimilarity\<close> and the ranking of \<open>runChatTurn\<close>\<close>

definition elemAt :: "vector \<Rightarrow> nat \<Rightarrow> jsnum" where
  \<comment> \<open>\<open>v[i]\<close> used as a number: an index past the end reads \<open>undefined\<close>, which is NaN in
      arithmetic; no read raises\<close>
  "elemAt v i = (if i < length v then v ! i else NaN)"

definition cosineStep ::
  "vector \<Rightarrow> vector \<Rightarrow> jsnum \<times> jsnum \<times> jsnum \<Rightarrow> nat \<Rightarrow> jsnum \<times> jsnum \<times> jsnum" where
  \<comment> \<open>the body of the \<open>for\<close> loop on \<open>(dot, m1, m2)\<close>\<close>
  "cosineStep v1 v2 acc i =
     (case acc of (dot, m1, m2) \<Rightarrow>
        (jsAdd dot (jsMul (elemAt v1 i) (elemAt v2 i)),
         jsAdd m1 (jsMul (elemAt v1 i) (elemAt v1 i)),
         jsAdd m2 (jsMul (elemAt v2 i) (elemAt v2 i))))"

definition cosineSimilarity :: "vector \<Rightarrow> vector \<Rightarrow> jsnum" where
  "cosineSimilarity v1 v2 =
     (case foldl (cosineStep v1 v2) (Fin 0, Fin 0, Fin 0) [0..<length v1] of
        (dot, m1, m2) \<Rightarrow> jsDiv dot (jsMul (jsSqrt m1) (jsSqrt m2)))"

record scored =
  idx :: nat
  score :: jsnum

text \<open>
  \<open>Array.prototype.sort\<close> with a comparator: ECMAScript reads a NaN answer of the comparator as
  \<open>+0\<close> and asks for a stable sort. It is modelled as insertion sort, each element placed
  before the elements it does not compare greater than. Every conforming sort returns this
  result when the comparator is consistent; when it is not (which a NaN score can cause) the
  standard leaves the order to the implementation.
\<close>

fun sortInsert :: "('a \<Rightarrow> 'a \<Rightarrow> jsnum) \<Rightarrow> 'a \<Rightarrow> 'a list \<Rightarrow> 'a list" where
  "sortInsert cmp x [] = [x]"
| "sortInsert cmp x (y # ys) =
     (if isPositive (cmp x y) then y # sortInsert cmp x ys else x # y # ys)"

definition arraySort :: "('a \<Rightarrow> 'a \<Rightarrow> jsnum) \<Rightarrow> 'a list \<Rightarrow> 'a list" where
  "arraySort cmp xs = foldr (sortInsert cmp) xs []"

definition byScore :: "scored \<Rightarrow> scored \<Rightarrow> jsnum" where
  \<comment> \<open>\<open>(a, b) => b.score - a.score\<close>\<close>
  "byScore a b = jsSub (score b) (score a)"

definition scoreAll :: "vector \<Rightarrow> vector list \<Rightarrow> scored list" where
  \<comment> \<open>\<open>docState.embeddings.map((emb, idx) => ({idx, score: cosineSimilarity(queryEmbedding, emb)}))\<close>\<close>
  "scoreAll queryEmbedding embs =
     map (\<lambda>(emb, i). \<lparr>idx = i, score = cosineSimilarity queryEmbedding emb\<rparr>)
       (zip embs [0..<length embs])"

definition rankAll :: "vector \<Rightarrow> vector list \<Rightarrow> scored list" where
  \<comment> \<open>\<open>scores\<close> after \<open>scores.sort(...)\<close>\<close>
  "rankAll queryEmbedding embs = arraySort byScore (scoreAll queryEmbedding embs)"

definition rankTop3 :: "vector \<Rightarrow> vector list \<Rightarrow> scored list" where
  \<comment> \<open>\<open>scores.slice(0, 3)\<close>\<close>
  "rankTop3 queryEmbedding embs = take 3 (rankAll queryEmbedding embs)"

text \<open>
  The same three steps with the score of a fragment embedding as a parameter \<open>sc\<close>: it stands
  for \<open>emb => cosineSimilarity(queryEmbedding, emb)\<close> as the engine computes it, in double
  precision with its rounding and overflow, which \<open>cosineSimilarity\<close> above does not model.
  Every double is a value of \<open>jsnum\<close>. The comparator is left as it is: the sign of a
  difference of two doubles is the sign of the exact difference (a difference of distinct
  doubles does not round to zero, and an overflow keeps the sign), and the sort only reads the
  sign.
\<close>

definition scoreAllWith :: "(vector \<Rightarrow> jsnum) \<Rightarrow> vector list \<Rightarrow> scored list" where
  "scoreAllWith sc embs =
     map (\<lambda>(emb, i). \<lparr>idx = i, score = sc emb\<rparr>) (zip embs [0..<length embs])"

definition rankAllWith :: "(vector \<Rightarrow> jsnum) \<Rightarrow> vector list \<Rightarrow> scored list" where
  "rankAllWith sc embs = arraySort byScore (scoreAllWith sc embs)"

definition rankTop3With :: "(vector \<Rightarrow> jsnum) \<Rightarrow> vector list \<Rightarrow> scored list" where
  "rankTop3With sc embs = take 3 (rankAllWith sc embs)"

definition doubleScore :: "vector \<Rightarrow> jsnum" where
  \<comment> \<open>a table of scores for the query \<open>[1, 1]\<close>, with the rounding of doubles:
      \<open>0.9999999999999998\<close> (that is \<open>1 - 2^-52\<close>, where exact arithmetic gives 1) against
      \<open>[1, 1]\<close>, \<open>1\<close> against \<open>[3, 3]\<close>, and \<open>0\<close> for the others, as against \<open>[1, -1]\<close>\<close>
  "doubleScore e =
     (if e = [Fin 1, Fin 1] then Fin (1 - 1 / 2 ^ 52)
      else if e = [Fin 3, Fin 3] then Fin 1
      else Fin 0)"

definition ranksBefore :: "scored \<Rightarrow> scored \<Rightarrow> bool" where
  \<comment> \<open>the order the claim asks for: higher score first, equal scores in fragment order\<close>
  "ranksBefore a b \<longleftrightarrow> jsLess (score b) (score a) \<or> (score a = score b \<and> idx a < idx b)"

section \<open>Application state\<close>

datatype role = System | User | Assistant

record message =
  role :: role
  content :: jsstring

record docState =
  name :: jsstring
  chunks :: "jsstring list"
  embeddings :: "vector list"
  modelUrl :: jsstring

text \<open>
  The \<open>Wllama\<close> object, as far as the code observes it: the model it was asked to load (the
  value of \<open>modelUrl\<close> in \<open>loadModel\<close>, which \<open>loadModelFromUrl\<close> receives as an absolute
  URL), whether that model is loaded, and whether the runtime is in embedding mode
  (\<open>setOptions({embeddings})\<close>).
\<close>

record runtime =
  loadedUrl :: jsstring
  modelLoaded :: bool
  embeddingsMode :: bool

datatype status =
    StatusInitial
  | StatusUnloading
  | StatusLoadingRuntime
  | StatusLoading jsstring int
  | StatusModelReady bool bool
  | StatusLoadFailed jsstring
  | StatusThinking
  | StatusReady
  | StatusDocumentLoaded jsstring nat

record completionRequest =
  reqMessages :: "message list"
  stream :: bool
  useCache :: "bool option"
  nPredict :: int
  abortSignal :: bool
  temp :: real
  top_p :: "real option"
  penalty_repeat :: "real option"

text \<open>
  The globals and the DOM elements the functions read and write. \<open>chat\<close> is the list of
  message bubbles (\<open>addMsg\<close>), the last one being \<open>assistantDiv\<close> during a turn. \<open>requests\<close> is
  not in the source: it records the calls of \<open>wllama.createChatCompletion\<close> in order.
\<close>

record app =
  wllama :: "runtime option"
  abortController :: bool
  activeNBatch :: int
  docState :: docState
  messages :: "message list"
  modelSelector :: jsstring
  statusEl :: status
  warnEl :: jsstring
  btnLoadDisabled :: bool
  btnLoadText :: jsstring
  btnSendDisabled :: bool
  btnStopDisabled :: bool
  chat :: "(role \<times> jsstring) list"
  requests :: "completionRequest list"

definition setStatus :: "status \<Rightarrow> app \<Rightarrow> app" where
  "setStatus s a = a\<lparr>statusEl := s\<rparr>"

definition setWarn :: "jsstring \<Rightarrow> app \<Rightarrow> app" where
  "setWarn s a = a\<lparr>warnEl := s\<rparr>"

definition addMsg :: "role \<Rightarrow> jsstring \<Rightarrow> app \<Rightarrow> app" where
  \<comment> \<open>the bubble has class \<open>user\<close> for the role user and \<open>assistant\<close> for any other\<close>
  "addMsg r txt a = a\<lparr>chat := chat a @ [(if r = User then User else Assistant, txt)]\<rparr>"

definition setAssistantDiv :: "jsstring \<Rightarrow> app \<Rightarrow> app" where
  \<comment> \<open>\<open>assistantDiv.textContent = txt\<close>, the bubble added last\<close>
  "setAssistantDiv txt a =
     (case rev (chat a) of
        [] \<Rightarrow> a
      | (r, _) # older \<Rightarrow> a\<lparr>chat := rev older @ [(r, txt)]\<rparr>)"

section \<open>Model switch: \<open>loadModel\<close>\<close>

record loadEnv =
  loadFailure :: "jsstring option"
  isolated :: bool
  multithread :: bool

definition warnModelSwitched :: jsstring where
  "warnModelSwitched =
     [0x26A0, 0xFE0F]
       @ js '' Model switched. Please re-upload your PDF to re-index it for the new model.''"

text \<open>
  \<open>loadFailure env\<close> is the outcome of \<open>wllama.loadModelFromUrl\<close>: \<open>None\<close> when it resolves,
  \<open>Some msg\<close> when it rejects with that message. What \<open>wllama.exit()\<close> does is of no
  consequence (its rejection is caught and logged). \<open>forcedNBatch || 1024\<close> takes 1024 for
  \<open>null\<close> and for \<open>0\<close>.
\<close>

definition loadModel :: "loadEnv \<Rightarrow> int option \<Rightarrow> app \<Rightarrow> app" where
  "loadModel env forcedNBatch a =
     (if btnLoadDisabled a \<and> wllama a = None then a
      else
        (let batchToUse = (case forcedNBatch of None \<Rightarrow> 1024 | Some n \<Rightarrow> if n = 0 then 1024 else n);
             a1 = a\<lparr>activeNBatch := batchToUse\<rparr>;
             a2 = (case wllama a1 of
                     None \<Rightarrow> a1
                   | Some w \<Rightarrow> (setStatus StatusUnloading a1)\<lparr>wllama := None\<rparr>);
             a3 = setStatus StatusLoadingRuntime (setWarn [] (a2\<lparr>btnLoadDisabled := True\<rparr>));
             url = modelSelector a3
         in if url = [] then
              (setStatus (StatusLoadFailed (js ''No model selected.'')) a3)\<lparr>btnLoadDisabled := False\<rparr>
            else
              (let a4 = setStatus (StatusLoading url batchToUse)
                          (a3\<lparr>wllama :=
                                Some \<lparr>loadedUrl = url, modelLoaded = False, embeddingsMode = False\<rparr>\<rparr>)
               in case loadFailure env of
                    Some msg \<Rightarrow> (setStatus (StatusLoadFailed msg) a4)\<lparr>btnLoadDisabled := False\<rparr>
                  | None \<Rightarrow>
                      (let a5 = setStatus (StatusModelReady (isolated env) (multithread env))
                                  (a4\<lparr>wllama :=
                                        Some \<lparr>loadedUrl = url, modelLoaded = True, embeddingsMode = True\<rparr>\<rparr>);
                           a6 = (if 0 < length (chunks (docState a5)) \<and> modelUrl (docState a5) \<noteq> url
                                 then setWarn warnModelSwitched
                                        (a5\<lparr>docState := (docState a5)\<lparr>embeddings := []\<rparr>\<rparr>)
                                 else a5)
                       in a6\<lparr>btnSendDisabled := False, btnLoadDisabled := False,
                             btnLoadText := js ''Switch model''\<rparr>))))"

section \<open>ChatOrchestrator: \<open>runChatTurn\<close>\<close>

text \<open>
  What the runtime and the user do during one turn, as far as the code observes it:
  \<^item> \<open>queryEmbedding\<close>: the outcome of \<open>wllama.embeddings(userText)\<close> (\<open>Inl msg\<close> = it rejects);
  \<^item> \<open>completion\<close>: the outcome of the streaming \<open>createChatCompletion\<close>: \<open>Inl msg\<close> when the
    call rejects, else the chunks the stream yields and how it ends (\<open>None\<close> = it completes,
    \<open>Some msg\<close> = the iteration throws after these chunks);
  \<^item> \<open>aborted\<close>: the value of \<open>abortController.signal.aborted\<close> when the code reads it;
  \<^item> \<open>fallback\<close>: the outcome of the non-streaming \<open>createChatCompletion\<close>;
  \<^item> \<open>decode\<close>, \<open>decoder0\<close>: the streaming \<open>TextDecoder\<close> (a state and its \<open>decode\<close> step).
  \<open>setOptions\<close> is taken to resolve.
\<close>

record streamChunk =
  piece :: "8 word list option"
  currentText :: "jsstring option"

record 'd chatEnv =
  queryEmbedding :: "jsstring + vector"
  completion :: "jsstring + streamChunk list \<times> jsstring option"
  aborted :: bool
  fallback :: "jsstring + jsstring"
  decode :: "'d \<Rightarrow> 8 word list \<Rightarrow> jsstring \<times> 'd"
  decoder0 :: 'd

definition warnContextSkipped :: jsstring where
  "warnContextSkipped =
     [0x26A0, 0xFE0F] @ js '' Context skipped: Please re-upload PDF to generate embeddings.''"

definition chunkAt :: "jsstring list \<Rightarrow> nat \<Rightarrow> jsstring" where
  \<comment> \<open>\<open>${docState.chunks[i]}\<close> in a template: a missing element prints as \<open>undefined\<close>\<close>
  "chunkAt cs i = (if i < length cs then cs ! i else js ''undefined'')"

fun joinWith :: "jsstring \<Rightarrow> jsstring list \<Rightarrow> jsstring" where
  "joinWith sep [] = []"
| "joinWith sep [x] = x"
| "joinWith sep (x # y # ys) = x @ sep @ joinWith sep (y # ys)"

definition contextBlock :: "jsstring list \<Rightarrow> scored list \<Rightarrow> jsstring" where
  "contextBlock cs top3 =
     [0x000A] @ js ''Context from document:'' @ [0x000A]
       @ joinWith [0x000A]
           (map (\<lambda>s. js ''--- DOCUMENT FRAGMENT ---'' @ [0x000A] @ chunkAt cs (idx s)) top3)
       @ [0x000A]"

definition setEmbeddingsMode :: "bool \<Rightarrow> app \<Rightarrow> app" where
  \<comment> \<open>\<open>await wllama.setOptions({ embeddings: b })\<close>\<close>
  "setEmbeddingsMode b a = a\<lparr>wllama := map_option (\<lambda>w. w\<lparr>embeddingsMode := b\<rparr>) (wllama a)\<rparr>"

definition retrieveContext :: "'d chatEnv \<Rightarrow> jsstring \<Rightarrow> app \<Rightarrow> jsstring \<times> app" where
  \<comment> \<open>step 1 of \<open>runChatTurn\<close>: the value of \<open>contextToInject\<close> and the state after it\<close>
  "retrieveContext env userText a =
     (if 0 < length (chunks (docState a)) \<and> wllama a \<noteq> None then
        (if length (embeddings (docState a)) = 0 then ([], setWarn warnContextSkipped a)
         else
           (let a1 = setEmbeddingsMode True a in
              case queryEmbedding env of
                Inl msg \<Rightarrow> ([], setWarn (js ''RAG Error: '' @ msg) a1)
              | Inr q \<Rightarrow>
                  (contextBlock (chunks (docState a1)) (rankTop3 q (embeddings (docState a1))), a1)))
      else ([], a))"

definition accStep ::
  "('d \<Rightarrow> 8 word list \<Rightarrow> jsstring \<times> 'd) \<Rightarrow> streamChunk \<Rightarrow> jsstring \<times> 'd \<Rightarrow> jsstring \<times> 'd" where
  \<comment> \<open>the update of \<open>acc\<close> for one chunk of the stream\<close>
  "accStep dec c st =
     (case st of (acc, d) \<Rightarrow>
        (let other =
               (case currentText c of
                  Some t \<Rightarrow> if length acc < length t then (t, d) else (acc, d)
                | None \<Rightarrow> (acc, d))
         in case piece c of
              Some p \<Rightarrow>
                if 0 < length p then (case dec d p of (txt, d') \<Rightarrow> (acc @ txt, d')) else other
            | None \<Rightarrow> other))"

fun consume ::
  "('d \<Rightarrow> 8 word list \<Rightarrow> jsstring \<times> 'd) \<Rightarrow> streamChunk list \<Rightarrow> jsstring \<times> 'd \<Rightarrow> app
     \<Rightarrow> (jsstring \<times> 'd) \<times> app" where
  \<comment> \<open>the \<open>for await\<close> loop over the chunks the stream yields\<close>
  "consume dec [] st a = (st, a)"
| "consume dec (c # rest) st a =
     (let st' = accStep dec c st;
          a' = (if 0 < length (fst st') then setAssistantDiv (fst st') a else a)
      in consume dec rest st' a')"

definition streamRequest :: "message list \<Rightarrow> completionRequest" where
  "streamRequest msgs =
     \<lparr>reqMessages = msgs, stream = True, useCache = Some True, nPredict = 512,
      abortSignal = True, temp = 2 / 10, top_p = Some (9 / 10), penalty_repeat = Some (11 / 10)\<rparr>"

definition fallbackRequest :: "message list \<Rightarrow> completionRequest" where
  "fallbackRequest msgs =
     \<lparr>reqMessages = msgs, stream = False, useCache = None, nPredict = 128,
      abortSignal = False, temp = 1 / 10, top_p = None, penalty_repeat = None\<rparr>"

definition pushAssistant :: "jsstring \<Rightarrow> app \<Rightarrow> app" where
  \<comment> \<open>\<open>messages.push({ role: "assistant", content: acc })\<close>\<close>
  "pushAssistant acc a = a\<lparr>messages := messages a @ [\<lparr>role = Assistant, content = acc\<rparr>]\<rparr>"

definition onError :: "'d chatEnv \<Rightarrow> jsstring \<Rightarrow> jsstring \<Rightarrow> app \<Rightarrow> app" where
  \<comment> \<open>the \<open>catch\<close> block, entered with the current \<open>acc\<close> and the message of the error\<close>
  "onError env acc msg a =
     (if aborted env then
        pushAssistant acc (setAssistantDiv (acc @ [0x000A, 0x000A] @ js ''[stopped]'') a)
      else setAssistantDiv (js ''Error: '' @ msg) a)"

definition nullMessage :: jsstring where
  \<comment> \<open>the message of the TypeError raised by \<open>wllama.createChatCompletion\<close> when \<open>wllama\<close> is
      \<open>null\<close>; its wording depends on the engine, this is the one of V8\<close>
  "nullMessage =
     js ''Cannot read properties of null (reading '' @ [0x0027] @ js ''createChatCompletion''
       @ [0x0027] @ js '')''"

definition generate :: "'d chatEnv \<Rightarrow> app \<Rightarrow> app" where
  \<comment> \<open>the \<open>try\<close> and \<open>catch\<close> blocks of step 2\<close>
  "generate env a =
     (case wllama a of
        None \<Rightarrow> onError env [] nullMessage a
      | Some w \<Rightarrow>
          (let a1 = a\<lparr>requests := requests a @ [streamRequest (messages a)]\<rparr> in
             case completion env of
               Inl msg \<Rightarrow> onError env [] msg a1
             | Inr (yielded, ending) \<Rightarrow>
                 (case consume (decode env) yielded ([], decoder0 env) a1 of
                    ((acc, d), a2) \<Rightarrow>
                      (case ending of
                         Some msg \<Rightarrow> onError env acc msg a2
                       | None \<Rightarrow>
                           if length acc = 0 \<and> \<not> aborted env then
                             (let a3 = a2\<lparr>requests := requests a2 @ [fallbackRequest (messages a2)]\<rparr> in
                                case fallback env of
                                  Inl msg \<Rightarrow> onError env acc msg a3
                                | Inr out \<Rightarrow> pushAssistant out (setAssistantDiv out a3))
                           else pushAssistant acc a2))))"

definition runChatTurn :: "'d chatEnv \<Rightarrow> jsstring \<Rightarrow> app \<Rightarrow> app" where
  "runChatTurn env userText a =
     (case retrieveContext env userText a of
        (contextToInject, a1) \<Rightarrow>
          (let promptWithContext = userText @ contextToInject;
               a2 = a1\<lparr>messages := messages a1 @ [\<lparr>role = User, content = promptWithContext\<rparr>]\<rparr>;
               a3 = addMsg User userText a2;
               a4 = addMsg Assistant [] a3;
               a5 = (setStatus StatusThinking a4)
                      \<lparr>abortController := True, btnStopDisabled := False, btnSendDisabled := True\<rparr>;
               a6 = setEmbeddingsMode False a5;
               a7 = generate env a6
           in (setStatus StatusReady (a7\<lparr>abortController := False\<rparr>))
                \<lparr>btnStopDisabled := True, btnSendDisabled := False\<rparr>))"

text \<open>Notions of the claims about a turn, in terms of what the stream yields.\<close>

definition accumulated :: "'d chatEnv \<Rightarrow> streamChunk list \<Rightarrow> jsstring" where
  \<comment> \<open>the value of \<open>acc\<close> when the stream has yielded these chunks\<close>
  "accumulated env yielded =
     fst (foldl (\<lambda>st c. accStep (decode env) c st) ([], decoder0 env) yielded)"

definition streamEndsEmpty :: "'d chatEnv \<Rightarrow> bool" where
  \<comment> \<open>the streaming completion finishes (does not throw) with zero accumulated output\<close>
  "streamEndsEmpty env \<longleftrightarrow>
     (case completion env of
        Inl msg \<Rightarrow> False
      | Inr (yielded, ending) \<Rightarrow> ending = None \<and> accumulated env yielded = [])"

definition turnMessages :: "'d chatEnv \<Rightarrow> jsstring \<Rightarrow> app \<Rightarrow> message list" where
  \<comment> \<open>the conversation sent to the model in this turn: the history and the user message
      with the retrieved context appended\<close>
  "turnMessages env userText a =
     messages a @ [\<lparr>role = User, content = userText @ fst (retrieveContext env userText a)\<rparr>]"

section \<open>IndexingPipeline: the upload handler \<open>pdfInput.onchange\<close>\<close>

text \<open>
  What the page, the PDF library and the runtime do during one upload:
  \<^item> \<open>fileName\<close>: the name of \<open>e.target.files[0]\<close>, \<open>None\<close> when no file was chosen;
  \<^item> \<open>extraction\<close>: \<open>Inl msg\<close> when the PDF library rejects, else the \<open>str\<close> items of each page;
  \<^item> \<open>tokenizeWith\<close>, \<open>embedWith\<close>: \<open>wllama.tokenize\<close> and \<open>wllama.embeddings\<close>, which depend
    on the model the runtime has loaded (their first argument).
  \<open>tokenize\<close> and \<open>setOptions\<close> are taken to resolve, as they do with a model loaded. The
  handler returns \<open>None\<close> when \<open>ensureChunkSize\<close> does not return. \<open>setStatus\<close> is called at
  every stage; each call overwrites the one before, so only the last one is in the state
  returned. With concurrency 1, \<open>runConcurrent\<close> runs \<open>processChunkSafe\<close> on the chunks one
  after the other, in order; the results of \<open>ensureChunkSize\<close> are collected in the order of
  the chunks.
\<close>

record indexEnv =
  fileName :: "jsstring option"
  extraction :: "jsstring + jsstring list list"
  tokenizeWith :: "jsstring \<Rightarrow> jsstring \<Rightarrow> int list"
  embedWith :: "jsstring \<Rightarrow> jsstring \<Rightarrow> vector option"

definition pageText :: "jsstring list list \<Rightarrow> jsstring" where
  \<comment> \<open>\<open>fullText\<close>: for each page, \<open>items.map(item => item.str).join(" ") + "\n"\<close>\<close>
  "pageText pages = concat (map (\<lambda>items. joinWith (js '' '') items @ [0x000A]) pages)"

definition indexDocument :: "indexEnv \<Rightarrow> app \<Rightarrow> app option" where
  "indexDocument env a =
     (case (fileName env, wllama a) of
        (Some fname, Some w) \<Rightarrow>
          (case extraction env of
             Inl msg \<Rightarrow> Some (setStatus StatusReady (setWarn (js ''PDF Error: '' @ msg) a))
           | Inr pages \<Rightarrow>
               Option.bind (chunkText (pageText pages) 600 100)
                 (\<lambda>chunks0.
                    Option.bind (those (map (ensureChunkSize (tokenizeWith env (loadedUrl w))) chunks0))
                      (\<lambda>results.
                         (let validatedChunks = concat results;
                              finalChunks = filter (\<lambda>c. 0 < length c) validatedChunks;
                              a1 = setEmbeddingsMode True a;
                              ix = foldl (\<lambda>s c. processChunkSafe (embedWith env (loadedUrl w)) c s)
                                     noIndexing finalChunks
                          in Some (setStatus (StatusDocumentLoaded fname (length (safeChunks ix)))
                                     (a1\<lparr>docState :=
                                          \<lparr>name = fname, chunks = safeChunks ix,
                                           embeddings = embeddingsAcc ix,
                                           modelUrl = modelSelector a1\<rparr>\<rparr>))))))
      | _ \<Rightarrow> Some a)"

section \<open>Initial state\<close>

text \<open>
  The globals as the source initialises them (\<open>wllama = null\<close>, \<open>activeNBatch = 1024\<close>, an
  empty \<open>docState\<close>, the system prompt as the only message). The page itself is not part of
  the sources: the DOM fields are given the values of an empty page whose selector holds the
  default model path. \<open>readyApp\<close> is that state with a model loaded.
\<close>

definition initialApp :: app where
  "initialApp =
     \<lparr>wllama = None, abortController = False, activeNBatch = 1024,
      docState = \<lparr>name = [], chunks = [], embeddings = [], modelUrl = []\<rparr>,
      messages =
        [\<lparr>role = System,
          content = js ''You are a helpful assistant. Keep answers concise. If unsure, say you are unsure.''\<rparr>],
      modelSelector = js ''/models/tinyllama-q4.gguf'',
      statusEl = StatusInitial, warnEl = [], btnLoadDisabled = False, btnLoadText = [],
      btnSendDisabled = True, btnStopDisabled = True, chat = [], requests = []\<rparr>"

definition readyApp :: app where
  "readyApp =
     initialApp\<lparr>wllama :=
       Some \<lparr>loadedUrl = js ''/models/tinyllama-q4.gguf'', modelLoaded = True, embeddingsMode = True\<rparr>\<rparr>"

text \<open>
  A session for the model switch: two model files, a load that goes through, and the upload
  of a one-page PDF whose text is \<open>hello, world!\<close>. The tokenizer answers one token for each
  character; the embedding of a text is \<open>[1]\<close> under the first model and \<open>[2]\<close> under any
  other, so that an embedding shows which model computed it.
\<close>

definition modelA :: jsstring where
  "modelA = js ''/models/tinyllama-q4.gguf''"

definition modelB :: jsstring where
  "modelB = js ''/models/other.gguf''"

definition loadOk :: loadEnv where
  "loadOk = \<lparr>loadFailure = None, isolated = True, multithread = True\<rparr>"

definition uploadEnv :: indexEnv where
  "uploadEnv =
     \<lparr>fileName = Some (js ''a.pdf''),
      extraction = Inr [[js ''hello,'', js ''world!'']],
      tokenizeWith = (\<lambda>m t. map (\<lambda>c. 0) t),
      embedWith = (\<lambda>m t. Some [if m = modelA then Fin 1 else Fin 2])\<rparr>"

text \<open>
  The state after that upload, made with the first model loaded and the second one selected.
\<close>

definition uploaded :: app where
  "uploaded =
     initialApp\<lparr>wllama := Some \<lparr>loadedUrl = modelA, modelLoaded = True, embeddingsMode = True\<rparr>,
       statusEl := StatusDocumentLoaded (js ''a.pdf'') 1, btnSendDisabled := False,
       btnLoadText := js ''Switch model'', modelSelector := modelB,
       docState := \<lparr>name = js ''a.pdf'', chunks = [js ''hello, world!''],
                    embeddings = [[Fin 1]], modelUrl = modelB\<rparr>\<rparr>"

section \<open>Properties of \<open>chunkText\<close>\<close>

lemma chunkLoop_step:
  "chunkLoop text size' overlap i cs =
     (if i < int (length text) then
        chunkLoop text size' overlap (nextCursor text overlap (cutPoint text size' i))
          (cs @ [fragment text (i, cutPoint text size' i)])
      else Some cs)"
  by (subst chunkLoop.simps) (simp add: cutPoint_def nextCursor_def fragment_def Let_def)

lemma lastIndexScan_ge: "- 1 \<le> best \<Longrightarrow> - 1 \<le> lastIndexScan s p k best"
  by (induction s arbitrary: k best) auto

lemma lastIndexOf_ge: "- 1 \<le> lastIndexOf s p"
  by (simp add: lastIndexOf_def lastIndexScan_ge)

lemma cutPoint_far: "int (length text) \<le> i + size' \<Longrightarrow> cutPoint text size' i = i + size'"
  by (simp add: cutPoint_def)

lemma cutPoint_lower:
  "i + size' - 99 \<le> cutPoint text size' i \<or> cutPoint text size' i = i + size'"
proof -
  have a: "- 1 \<le> lastIndexOf w p" for w :: jsstring and p
    by (rule lastIndexOf_ge)
  show ?thesis
    unfolding cutPoint_def Let_def
    using a[of "substring text (i + size' - 100) (i + size' + 20)" "js ''. ''"]
      a[of "substring text (i + size' - 100) (i + size' + 20)" "[0x000A]"]
      a[of "substring text (i + size' - 100) (i + size' + 20)" "js '' ''"]
    by auto
qed

lemma cutPoint_gt: "100 \<le> size' \<Longrightarrow> i < cutPoint text size' i"
  using cutPoint_lower[of i "size'" "text"] by auto

text \<open>
  The guard \<open>end <= i + overlap\<close> of the "safety exit" is true on every iteration (\<open>i\<close> was just
  set to \<open>end - overlap\<close>, or to \<open>0\<close> when that is negative), so whenever text remains beyond the
  cut point the cursor is put on the cut point itself, not \<open>overlap\<close> characters before it.
\<close>

lemma nextCursor_more: "end1 < int (length text) \<Longrightarrow> nextCursor text overlap end1 = end1"
  by (simp add: nextCursor_def Let_def)

lemma nextCursor_last:
  "int (length text) \<le> end1 \<Longrightarrow> nextCursor text overlap end1 = max 0 (end1 - overlap)"
  by (simp add: nextCursor_def Let_def max_def)

text \<open>
  The loop returns whenever \<open>0 \<le> overlap\<close> and \<open>overlap + 100 \<le> size\<close> (so for the defaults 600
  and 100): the cursor strictly advances. Its fragments are those of the recorded windows, and
  the windows from cursor \<open>i\<close> on cover every position from \<open>i\<close> to the end of the text.
\<close>

lemma chunk_run:
  assumes "0 \<le> overlap" "overlap + 100 \<le> size'"
  shows "0 \<le> i \<Longrightarrow> \<exists>ws'. chunkWindows text size' overlap i ws = Some (ws @ ws')
            \<and> chunkLoop text size' overlap i cs = Some (cs @ map (fragment text) ws')
            \<and> covers ws' i (int (length text))"
proof (induction "nat (int (length text) - i)" arbitrary: i ws cs rule: less_induct)
  case less
  show ?case
  proof (cases "i < int (length text)")
    case False
    then show ?thesis
      by (subst chunkWindows.simps, subst chunkLoop_step) (simp add: covers_def)
  next
    case True
    let ?e = "cutPoint text size' i"
    let ?n = "nextCursor text overlap ?e"
    have e: "i < ?e" using assms by (simp add: cutPoint_gt)
    have n: "i < ?n \<and> ?n \<le> ?e"
    proof (cases "?e < int (length text)")
      case True
      then show ?thesis using e by (simp add: nextCursor_more)
    next
      case False
      then show ?thesis
        using cutPoint_lower[of i "size'" "text"] less.prems assms
        by (auto simp: nextCursor_last)
    qed
    then have "nat (int (length text) - ?n) < nat (int (length text) - i)" "0 \<le> ?n"
      using True less.prems by auto
    from less.hyps[OF this, of "ws @ [(i, ?e)]" "cs @ [fragment text (i, ?e)]"]
    obtain ws' where w:
      "chunkWindows text size' overlap ?n (ws @ [(i, ?e)]) = Some ((ws @ [(i, ?e)]) @ ws')"
      "chunkLoop text size' overlap ?n (cs @ [fragment text (i, ?e)])
         = Some ((cs @ [fragment text (i, ?e)]) @ map (fragment text) ws')"
      "covers ws' ?n (int (length text))" by blast
    have c: "covers ((i, ?e) # ws') i (int (length text))"
      unfolding covers_def
    proof
      fix p assume p: "p \<in> {i..<int (length text)}"
      show "\<exists>w \<in> set ((i, ?e) # ws'). fst w \<le> p \<and> p < snd w"
      proof (cases "p < ?e")
        case True
        with p show ?thesis by simp
      next
        case False
        with n p have "p \<in> {?n..<int (length text)}" by simp
        with w(3) obtain v where "v \<in> set ws'" "fst v \<le> p \<and> p < snd v"
          unfolding covers_def by blast
        then show ?thesis by auto
      qed
    qed
    show ?thesis
      apply (rule exI[of _ "(i, ?e) # ws'"])
      apply (subst chunkWindows.simps, subst chunkLoop_step)
      using True w c by simp
  qed
qed

text \<open>
  C1 (the code departs from the claim). The claim: each fragment after the first starts
  \<open>overlap\<close> characters before the previous cut point. On 600 letters \<open>a\<close> followed by 100
  letters \<open>b\<close> the first cut is at 600 and text remains, so the always-true safety exit moves
  the cursor to 600: the second fragment is the 100 \<open>b\<close>s and shares nothing with the first
  (with the overlap it would start with 100 \<open>a\<close>s).
\<close>

theorem chunkText_no_overlap:
  "chunkText (replicate 600 0x61 @ replicate 100 0x62) 600 100
     = Some [replicate 600 0x61, replicate 100 0x62]"
  by code_simp

text \<open>
  C2, as stated, fails: the post-filter drops every fragment of at most 10 characters, so the
  positions of its window are in no returned fragment. For the text \<open>hello\<close> nothing at all is
  returned.
\<close>

theorem chunkText_gap_counterexample:
  "chunkText (js ''hello'') 600 100 = Some []"
  by code_simp

text \<open>
  C2, amended: \<open>chunkText\<close> (size 600, overlap 100) returns for every input, and the source
  windows of the raw fragments (the fragments pushed by the loop, before the length filter)
  cover every character position of the input. The returned fragments are the raw ones longer
  than 10 characters.
\<close>

theorem chunkText_raw_windows_cover:
  "\<exists>ws. chunkWindows text 600 100 0 [] = Some ws
      \<and> chunkText text 600 100 = Some (filter (\<lambda>c. 10 < length c) (map (fragment text) ws))
      \<and> covers ws 0 (int (length text))"
  using chunk_run[of 100 600 0 "text" "[]" "[]"] by (auto simp: chunkText_def)

theorem chunkText_raw_windows_cover_witness:
  "\<exists>ws. chunkWindows (js ''hello'') 600 100 0 [] = Some ws
      \<and> (\<exists>w \<in> set ws. fst w \<le> 3 \<and> 3 < snd w)"
  using chunkText_raw_windows_cover[of "js ''hello''"]
  by (auto simp: covers_def js_def)

text \<open>
  C3, as stated, fails in both directions: a text whose trimmed length is at most 10 yields no
  fragment, and a text of 550 letters yields two (the whole text, then once more its last 50
  characters, because the cursor is set back to 500 after the end of the text was reached).
\<close>

theorem chunkText_short_counterexample:
  "chunkText (js ''short'') 600 100 = Some []
   \<and> chunkText (replicate 550 0x61) 600 100 = Some [replicate 550 0x61, replicate 50 0x61]"
  by code_simp

text \<open>
  C3, amended: for every input text of at most 500 characters (targetSize minus overlap),
  \<open>chunkText\<close> returns exactly one fragment, the trimmed text, when the trimmed text is longer
  than 10 characters, and no fragment otherwise.
\<close>

theorem chunkText_short:
  assumes "length text \<le> 500"
  shows "chunkText text 600 100 = Some (if 10 < length (trim text) then [trim text] else [])"
proof (cases "text = []")
  case True
  then show ?thesis
    by (simp add: chunkText_def chunkLoop_step trim_def)
next
  case False
  have s: "substring text 0 600 = text"
    using assms by (simp add: substring_def Let_def)
  have "chunkLoop text 600 100 0 [] = Some [trim text]"
    apply (subst chunkLoop_step)
    using False assms apply (simp add: cutPoint_far nextCursor_last fragment_def s)
    apply (subst chunkLoop_step)
    by simp
  then show ?thesis by (simp add: chunkText_def)
qed

theorem chunkText_short_witness:
  "length (js ''hello, world!'') \<le> 500
   \<and> chunkText (js ''hello, world!'') 600 100 = Some [js ''hello, world!'']"
proof -
  have t: "trim (js ''hello, world!'') = js ''hello, world!''" by code_simp
  have l: "length (js ''hello, world!'') \<le> 500" by (simp add: js_def)
  show ?thesis
    using chunkText_short[OF l] l by (simp add: t) (simp add: js_def)
qed

section \<open>Properties of \<open>ensureChunkSize\<close>\<close>

lemma ensureChunkSize_step:
  "ensureChunkSize tokenize text =
     (if length (tokenize text) \<le> 300 then Some [text]
      else Option.bind
             (if leftPiece text \<noteq> [] then ensureChunkSize tokenize (leftPiece text) else Some [])
             (\<lambda>l. Option.bind
                (if rightPiece text \<noteq> [] then ensureChunkSize tokenize (rightPiece text)
                 else Some [])
                (\<lambda>r. Some (l @ r))))"
  by (subst ensureChunkSize.simps) (simp add: leftPiece_def rightPiece_def splitIdx_def Let_def)

text \<open>
  A text over the threshold whose right piece is the text itself is never finished: the call
  on the right piece is the same call again.
\<close>

lemma ensureChunkSize_stuck:
  assumes big: "300 < length (tokenize text)"
    and right: "rightPiece text = text" and ne: "text \<noteq> []"
  shows "ensureChunkSize tokenize text = None"
proof (rule ccontr)
  assume "ensureChunkSize tokenize text \<noteq> None"
  then obtain y where y: "ensureChunkSize tokenize text = Some y" by auto
  have "\<not> (tok = tokenize \<and> t = text)"
    if "ensureChunkSize tok t = Some r" for tok t r
  proof (rule ensureChunkSize.raw_induct
      [where P = "\<lambda>tok t r. \<not> (tok = tokenize \<and> t = text)", OF _ that])
    fix f tok t r
    assume ih: "\<And>tok t r. f tok t = Some r \<Longrightarrow> \<not> (tok = tokenize \<and> t = text)"
      and step: "(if length (tok t) \<le> 300 then Some [t]
      else
        (let mid = int (length t) div 2;
             searchWindow = substring t (mid - 50) (mid + 50);
             spaceRelative = lastIndexOf searchWindow (js '' '');
             splitIdx = (if spaceRelative \<noteq> - 1 then mid - 50 + spaceRelative else mid);
             left = trim (substring t 0 splitIdx);
             right = trim (substringFrom t splitIdx)
         in Option.bind (if left \<noteq> [] then f tok left else Some [])
              (\<lambda>l. Option.bind (if right \<noteq> [] then f tok right else Some [])
                 (\<lambda>r. Some (l @ r))))) = Some r"
    show "\<not> (tok = tokenize \<and> t = text)"
    proof
      assume a: "tok = tokenize \<and> t = text"
      from step a big right ne have "\<exists>z. f tokenize text = Some z"
        by (auto simp: leftPiece_def rightPiece_def splitIdx_def Let_def
            split: if_splits Option.bind_splits)
      with ih show False by blast
    qed
  qed
  with y show False by blast
qed

text \<open>
  C4, as stated, fails: no piece over the threshold is ever accepted as a leaf, and the
  recursion need not end. For the single character \<open>a\<close> and a tokenizer that answers 301
  tokens, \<open>mid\<close> is 0, no space is found, the left piece is empty and the right piece is
  \<open>a\<close> again: the function calls itself on the same text for ever. For the 12 characters
  \<open>hello world!\<close>, \<open>mid - 50\<close> is negative, \<open>substring\<close> clamps the window to start at 0, the
  space is found at 5 relative to 0, and \<open>splitIdx = 6 - 50 + 5 = -39\<close>; again the left piece
  is empty and the right piece is the whole text.
\<close>

theorem ensureChunkSize_diverges:
  "ensureChunkSize tooMany (js ''a'') = None
   \<and> splitIdx (js ''hello world!'') = - 39
   \<and> leftPiece (js ''hello world!'') = []
   \<and> rightPiece (js ''hello world!'') = js ''hello world!''
   \<and> ensureChunkSize tooMany (js ''hello world!'') = None"
proof (intro conjI)
  show "ensureChunkSize tooMany (js ''a'') = None"
  proof (rule ensureChunkSize_stuck)
    show "300 < length (tooMany (js ''a''))" by (simp add: tooMany_def)
    show "rightPiece (js ''a'') = js ''a''" by code_simp
    show "js ''a'' \<noteq> []" by (simp add: js_def)
  qed
  show "splitIdx (js ''hello world!'') = - 39" by code_simp
  show "leftPiece (js ''hello world!'') = []" by code_simp
  show r: "rightPiece (js ''hello world!'') = js ''hello world!''" by code_simp
  show "ensureChunkSize tooMany (js ''hello world!'') = None"
  proof (rule ensureChunkSize_stuck)
    show "300 < length (tooMany (js ''hello world!''))" by (simp add: tooMany_def)
    show "rightPiece (js ''hello world!'') = js ''hello world!''" by (rule r)
    show "js ''hello world!'' \<noteq> []" by (simp add: js_def)
  qed
qed

lemma lastIndexScan_single:
  "lastIndexScan s [c] k best = r \<Longrightarrow>
     r = best \<or> (int k \<le> r \<and> r < int k + int (length s) \<and> s ! (nat r - k) = c)"
proof (induction s arbitrary: k best)
  case Nil
  then show ?case by simp
next
  case (Cons x s)
  from Cons.prems have
    "lastIndexScan s [c] (Suc k) (if x = c then int k else best) = r" by simp
  from Cons.IH[OF this] show ?case
    by (auto simp: nth_Cons' nat_diff_distrib' split: if_splits)
qed

lemma lastIndexOf_single:
  assumes "lastIndexOf s [c] \<noteq> - 1"
  shows "0 \<le> lastIndexOf s [c] \<and> lastIndexOf s [c] < int (length s)
    \<and> s ! nat (lastIndexOf s [c]) = c"
  using lastIndexScan_single[of s c 0 "- 1" "lastIndexOf s [c]"] assms
  by (auto simp: lastIndexOf_def)

lemma trim_leading_space:
  assumes "s \<noteq> []" "isWhiteSpace (hd s)"
  shows "length (trim s) < length s"
proof -
  obtain x xs where s: "s = x # xs" using assms(1) by (cases s) auto
  have "length (trim s) \<le> length (dropWhile isWhiteSpace s)"
    unfolding trim_def using length_dropWhile_le[of isWhiteSpace "rev (dropWhile isWhiteSpace s)"]
    by simp
  also have "\<dots> \<le> length xs"
    using assms(2) by (simp add: s length_dropWhile_le)
  finally show ?thesis by (simp add: s)
qed

lemma space_is_white: "isWhiteSpace 0x20"
  by (simp add: isWhiteSpace_def)

text \<open>
  For a text of at least 100 characters the window is not clamped, and both pieces are
  strictly shorter than the text.
\<close>

lemma pieces_shorter:
  assumes "100 \<le> length text"
  shows "length (leftPiece text) < length text \<and> length (rightPiece text) < length text"
proof -
  let ?n = "int (length text)"
  let ?mid = "?n div 2"
  let ?w = "substring text (?mid - 50) (?mid + 50)"
  let ?rel = "lastIndexOf ?w (js '' '')"
  have sp: "js '' '' = [0x20]" by (simp add: js_def)
  have mid: "50 \<le> ?mid" "?mid + 50 \<le> ?n" using assms by auto
  have w: "?w = take 100 (drop (nat (?mid - 50)) text)"
    using mid by (simp add: substring_def Let_def min_def max_def)
  have lw: "length ?w = 100" using mid by (simp add: w)
  have split: "0 \<le> splitIdx text \<and> splitIdx text < ?n
      \<and> (splitIdx text = 0 \<longrightarrow> isWhiteSpace (hd text))
      \<and> (0 < splitIdx text \<or> isWhiteSpace (text ! nat (splitIdx text)))"
  proof (cases "?rel = - 1")
    case True
    then have "splitIdx text = ?mid" by (simp add: splitIdx_def Let_def)
    with mid show ?thesis by auto
  next
    case False
    then have s: "splitIdx text = ?mid - 50 + ?rel" by (simp add: splitIdx_def Let_def)
    from False lastIndexOf_single[of ?w "0x20"] lw
    have r: "0 \<le> ?rel" "?rel < 100" "?w ! nat ?rel = 0x20" by (simp_all add: sp)
    have "?w ! nat ?rel = text ! (nat (?mid - 50) + nat ?rel)"
      using r mid by (simp add: w)
    also have "nat (?mid - 50) + nat ?rel = nat (splitIdx text)"
      using r mid by (simp add: s nat_add_distrib)
    finally have "text ! nat (splitIdx text) = 0x20" using r(3) by simp
    then have ws: "isWhiteSpace (text ! nat (splitIdx text))" by (simp add: space_is_white)
    have "splitIdx text = 0 \<longrightarrow> isWhiteSpace (hd text)"
      using ws assms by (cases "text") auto
    with s r mid ws show ?thesis by auto
  qed
  have left: "length (leftPiece text) < length text"
    using split length_trim_le[of "substring text 0 (splitIdx text)"]
      length_substring_prefix[of "splitIdx text" "text"]
    unfolding leftPiece_def by linarith
  have right: "length (rightPiece text) < length text"
  proof (cases "0 < splitIdx text")
    case True
    then show ?thesis
      using split length_trim_le[of "substringFrom text (splitIdx text)"]
        length_substringFrom[of "splitIdx text" "text"]
      unfolding rightPiece_def by linarith
  next
    case False
    with split have z: "splitIdx text = 0" "isWhiteSpace (hd text)" by auto
    have "substringFrom text 0 = text" by (simp add: substringFrom_def substring_def Let_def)
    moreover have "text \<noteq> []" using assms by auto
    ultimately show ?thesis
      using trim_leading_space[of "text"] z by (simp add: rightPiece_def)
  qed
  from left right show ?thesis by simp
qed

text \<open>
  C4, amended: for every tokenizer that answers at most 300 tokens for each text shorter than
  100 characters, \<open>ensureChunkSize\<close> terminates on every input text, and every piece it
  returns is within the 300-token threshold (no piece over the threshold is accepted as a
  leaf); for a text of at least 100 characters, each bisection strictly reduces the character
  length of both pieces.
\<close>

theorem ensureChunkSize_terminates:
  assumes small: "\<forall>t. length t < 100 \<longrightarrow> length (tokenize t) \<le> 300"
  shows "(\<exists>r. ensureChunkSize tokenize text = Some r \<and> (\<forall>p \<in> set r. length (tokenize p) \<le> 300))
    \<and> (100 \<le> length text \<longrightarrow>
          length (leftPiece text) < length text \<and> length (rightPiece text) < length text)"
proof
  show "\<exists>r. ensureChunkSize tokenize text = Some r \<and> (\<forall>p \<in> set r. length (tokenize p) \<le> 300)"
  proof (induction "length text" arbitrary: "text" rule: less_induct)
    case less
    show ?case
    proof (cases "length (tokenize text) \<le> 300")
      case True
      then show ?thesis by (subst ensureChunkSize_step) simp
    next
      case False
      with small have "100 \<le> length text" by (cases "length text < 100") auto
      from pieces_shorter[OF this] less
      obtain l r where
        "ensureChunkSize tokenize (leftPiece text) = Some l \<and> (\<forall>p \<in> set l. length (tokenize p) \<le> 300)"
        "ensureChunkSize tokenize (rightPiece text) = Some r \<and> (\<forall>p \<in> set r. length (tokenize p) \<le> 300)"
        by blast
      with False show ?thesis by (subst ensureChunkSize_step) auto
    qed
  qed
  show "100 \<le> length text \<longrightarrow>
          length (leftPiece text) < length text \<and> length (rightPiece text) < length text"
    using pieces_shorter by blast
qed

theorem ensureChunkSize_terminates_witness:
  "ensureChunkSize (map (\<lambda>c. 0)) (replicate 400 0x61)
     = Some [replicate 200 0x61, replicate 200 0x61]
   \<and> length (leftPiece (replicate 400 0x61)) < 400
   \<and> length (rightPiece (replicate 400 0x61)) < 400"
proof -
  have h: "\<forall>t::jsstring. length t < 100 \<longrightarrow> length (map (\<lambda>c. 0::int) t) \<le> 300" by simp
  have e: "ensureChunkSize (map (\<lambda>c. 0)) (replicate 400 0x61)
     = Some [replicate 200 0x61, replicate 200 0x61]" by code_simp
  show ?thesis
    using ensureChunkSize_terminates[OF h, of "replicate 400 0x61"] e by simp
qed

section \<open>Properties of \<open>processChunkSafe\<close>\<close>

lemma processChunkSafe_ok:
  "embd t = Some out \<Longrightarrow>
   processChunkSafe embd t s =
     s\<lparr>embedCalls := embedCalls s @ [t], embeddingsAcc := embeddingsAcc s @ [out],
       safeChunks := safeChunks s @ [t]\<rparr>"
  by (subst processChunkSafe.simps) simp

text \<open>
  C5, as stated, fails: the floor is tested on the chunk whose embedding failed, with
  \<open>text.length < 10\<close>, never on the halves. A failing chunk of 12 characters has its two halves
  of 6 characters submitted, and a failing chunk of exactly 10 characters (which does not
  exceed 10) is bisected too.
\<close>

theorem processChunkSafe_counterexample:
  "embedCalls (processChunkSafe (\<lambda>t. None) (js ''abcdefghijkl'') noIndexing)
     = [js ''abcdefghijkl'', js ''abcdef'', js ''ghijkl'']
   \<and> embedCalls (processChunkSafe (\<lambda>t. None) (js ''abcdefghij'') noIndexing)
     = [js ''abcdefghij'', js ''abcde'', js ''fghij'']"
  by code_simp

lemma appendIndexing_assoc:
  "appendIndexing (appendIndexing a b) c = appendIndexing a (appendIndexing b c)"
  by (simp add: appendIndexing_def)

lemma appendIndexing_noIndexing: "appendIndexing s noIndexing = s" "appendIndexing noIndexing s = s"
  by (simp_all add: appendIndexing_def noIndexing_def)

lemma processChunkSafe_frame:
  "processChunkSafe embd t s = appendIndexing s (processChunkSafe embd t noIndexing)"
proof (induction "length t" arbitrary: t s rule: less_induct)
  case less
  show ?case
  proof (cases "embd t")
    case (Some v)
    then show ?thesis
      by (subst processChunkSafe.simps, subst (2) processChunkSafe.simps)
        (simp add: appendIndexing_def noIndexing_def)
  next
    case None
    show ?thesis
    proof (cases "length t < 10")
      case True
      with None show ?thesis
        by (subst processChunkSafe.simps, subst (2) processChunkSafe.simps)
          (simp add: appendIndexing_def noIndexing_def)
    next
      case False
      let ?l = "trim (substring t 0 (int (length t) div 2))"
      let ?r = "trim (substringFrom t (int (length t) div 2))"
      have l: "length ?l < length t" and r: "length ?r < length t"
        using False by (simp_all add: left_half_shorter right_half_shorter)
      have un: "processChunkSafe embd t s0 =
          retry embd ?r (retry embd ?l (s0\<lparr>embedCalls := embedCalls s0 @ [t]\<rparr>))" for s0
        using None False by (subst processChunkSafe.simps) (simp add: retry_def Let_def)
      have fr: "retry embd h s0 = appendIndexing s0 (retry embd h noIndexing)"
        if "length h < length t" for h s0
        using less[OF that, of s0] by (simp add: retry_def appendIndexing_noIndexing)
      have "processChunkSafe embd t s =
          appendIndexing (appendIndexing (s\<lparr>embedCalls := embedCalls s @ [t]\<rparr>) (retry embd ?l noIndexing))
            (retry embd ?r noIndexing)"
        unfolding un using fr[OF r] fr[OF l] by metis
      moreover have "processChunkSafe embd t noIndexing =
          appendIndexing (appendIndexing (noIndexing\<lparr>embedCalls := embedCalls noIndexing @ [t]\<rparr>) (retry embd ?l noIndexing))
            (retry embd ?r noIndexing)"
        unfolding un using fr[OF r] fr[OF l] by metis
      ultimately show ?thesis
        by (simp add: appendIndexing_def noIndexing_def)
    qed
  qed
qed

lemma processChunkSafe_logs_first:
  "\<exists>rest. embedCalls (processChunkSafe embd t s) = embedCalls s @ t # rest"
proof -
  have "\<exists>rest. embedCalls (processChunkSafe embd t noIndexing) = t # rest"
  proof (cases "embd t")
    case (Some v)
    then show ?thesis by (subst processChunkSafe.simps) (simp add: noIndexing_def)
  next
    case None
    show ?thesis
    proof (cases "length t < 10")
      case True
      with None show ?thesis by (subst processChunkSafe.simps) (simp add: noIndexing_def)
    next
      case False
      with None have "processChunkSafe embd t noIndexing =
          retry embd (trim (substringFrom t (int (length t) div 2)))
           (retry embd (trim (substring t 0 (int (length t) div 2)))
             (noIndexing\<lparr>embedCalls := embedCalls noIndexing @ [t]\<rparr>))"
        by (subst processChunkSafe.simps) (simp add: retry_def Let_def)
      then show ?thesis
        using processChunkSafe_frame[of embd _ "retry embd (trim (substring t 0 (int (length t) div 2)))
             (noIndexing\<lparr>embedCalls := embedCalls noIndexing @ [t]\<rparr>)"]
          processChunkSafe_frame[of embd _ "noIndexing\<lparr>embedCalls := embedCalls noIndexing @ [t]\<rparr>"]
        by (auto simp: retry_def appendIndexing_def noIndexing_def)
    qed
  qed
  then show ?thesis
    using processChunkSafe_frame[of embd t s] by (auto simp: appendIndexing_def)
qed

lemma processChunkSafe_split:
  assumes "embd t = None" "10 \<le> length t"
  shows "processChunkSafe embd t s =
      appendIndexing
        (appendIndexing (s\<lparr>embedCalls := embedCalls s @ [t]\<rparr>)
           (halfRun embd (trim (substring t 0 (int (length t) div 2)))))
        (halfRun embd (trim (substringFrom t (int (length t) div 2))))"
proof -
  have fr: "retry embd h s0 = appendIndexing s0 (halfRun embd h)" for h s0
    using processChunkSafe_frame[of embd h s0]
    by (simp add: retry_def halfRun_def appendIndexing_noIndexing)
  have "processChunkSafe embd t s =
        retry embd (trim (substringFrom t (int (length t) div 2)))
          (retry embd (trim (substring t 0 (int (length t) div 2)))
             (s\<lparr>embedCalls := embedCalls s @ [t]\<rparr>))"
    using assms by (subst processChunkSafe.simps) (simp add: retry_def Let_def)
  then show ?thesis by (simp add: fr)
qed

lemma halfRun_submitted:
  assumes "h \<noteq> []"
  shows "h \<in> set (embedCalls (halfRun embd h))
    \<and> (\<forall>v. embd h = Some v \<longrightarrow>
          h \<in> set (safeChunks (halfRun embd h)) \<and> v \<in> set (embeddingsAcc (halfRun embd h)))"
  using assms processChunkSafe_logs_first[of embd h noIndexing]
  by (auto simp: halfRun_def processChunkSafe_ok noIndexing_def)

text \<open>
  C5, amended: every chunk handed to \<open>processChunkSafe\<close> is submitted for embedding, and kept
  (text and embedding) when the call succeeds. When the call fails, a chunk shorter than 10
  characters is dropped and nothing more is submitted; a chunk of at least 10 characters is
  bisected at the character midpoint and each non-empty trimmed half is handed to
  \<open>processChunkSafe\<close> in turn, left then right, whatever its length: the half is submitted,
  kept if its embedding succeeds, and treated the same way if it fails. So texts shorter than
  10 characters are submitted after a failure, and are dropped only when their own embedding
  fails.
\<close>

theorem processChunkSafe_on_failure:
  "(\<exists>rest. embedCalls (processChunkSafe embd t s) = embedCalls s @ t # rest)
   \<and> (\<forall>v. embd t = Some v \<longrightarrow>
        processChunkSafe embd t s =
          s\<lparr>embedCalls := embedCalls s @ [t], embeddingsAcc := embeddingsAcc s @ [v],
            safeChunks := safeChunks s @ [t]\<rparr>)
   \<and> (embd t = None \<and> length t < 10 \<longrightarrow>
        processChunkSafe embd t s = s\<lparr>embedCalls := embedCalls s @ [t]\<rparr>)
   \<and> (embd t = None \<and> 10 \<le> length t \<longrightarrow>
        processChunkSafe embd t s =
          appendIndexing
            (appendIndexing (s\<lparr>embedCalls := embedCalls s @ [t]\<rparr>)
               (halfRun embd (trim (substring t 0 (int (length t) div 2)))))
            (halfRun embd (trim (substringFrom t (int (length t) div 2))))
        \<and> (\<forall>h \<in> {trim (substring t 0 (int (length t) div 2)),
                   trim (substringFrom t (int (length t) div 2))}.
              h \<noteq> [] \<longrightarrow>
                h \<in> set (embedCalls (processChunkSafe embd t s))
                \<and> (\<forall>v. embd h = Some v \<longrightarrow>
                      h \<in> set (safeChunks (processChunkSafe embd t s))
                      \<and> v \<in> set (embeddingsAcc (processChunkSafe embd t s)))))"
proof (intro conjI allI impI)
  show "\<exists>rest. embedCalls (processChunkSafe embd t s) = embedCalls s @ t # rest"
    by (rule processChunkSafe_logs_first)
next
  fix v assume "embd t = Some v"
  then show "processChunkSafe embd t s =
          s\<lparr>embedCalls := embedCalls s @ [t], embeddingsAcc := embeddingsAcc s @ [v],
            safeChunks := safeChunks s @ [t]\<rparr>"
    by (rule processChunkSafe_ok)
next
  assume "embd t = None \<and> length t < 10"
  then show "processChunkSafe embd t s = s\<lparr>embedCalls := embedCalls s @ [t]\<rparr>"
    by (subst processChunkSafe.simps) simp
next
  assume a: "embd t = None \<and> 10 \<le> length t"
  then show "processChunkSafe embd t s =
          appendIndexing
            (appendIndexing (s\<lparr>embedCalls := embedCalls s @ [t]\<rparr>)
               (halfRun embd (trim (substring t 0 (int (length t) div 2)))))
            (halfRun embd (trim (substringFrom t (int (length t) div 2))))"
    using processChunkSafe_split[of embd t s] by blast
next
  assume a: "embd t = None \<and> 10 \<le> length t"
  let ?l = "trim (substring t 0 (int (length t) div 2))"
  let ?r = "trim (substringFrom t (int (length t) div 2))"
  have sp: "processChunkSafe embd t s =
      appendIndexing (appendIndexing (s\<lparr>embedCalls := embedCalls s @ [t]\<rparr>) (halfRun embd ?l))
        (halfRun embd ?r)"
    using a processChunkSafe_split[of embd t s] by blast
  show "\<forall>h \<in> {?l, ?r}. h \<noteq> [] \<longrightarrow>
                h \<in> set (embedCalls (processChunkSafe embd t s))
                \<and> (\<forall>v. embd h = Some v \<longrightarrow>
                      h \<in> set (safeChunks (processChunkSafe embd t s))
                      \<and> v \<in> set (embeddingsAcc (processChunkSafe embd t s)))"
    unfolding sp using halfRun_submitted[of ?l embd] halfRun_submitted[of ?r embd]
    by (auto simp: appendIndexing_def)
qed

theorem processChunkSafe_on_failure_witness:
  "processChunkSafe (\<lambda>t. None) (js ''abcdefghi'') noIndexing
     = noIndexing\<lparr>embedCalls := [js ''abcdefghi'']\<rparr>
   \<and> processChunkSafe shortOnly (js ''abcdefghijkl'') noIndexing
     = \<lparr>embeddingsAcc = [[Fin 1], [Fin 1]], safeChunks = [js ''abcdef'', js ''ghijkl''],
        embedCalls = [js ''abcdefghijkl'', js ''abcdef'', js ''ghijkl'']\<rparr>"
proof -
  have l: "length (js ''abcdefghi'') < 10" "10 \<le> length (js ''abcdefghijkl'')"
    "length (js ''abcdef'') < 10" "length (js ''ghijkl'') < 10"
    "js ''abcdef'' \<noteq> []" "js ''ghijkl'' \<noteq> []"
    by (simp_all add: js_def)
  have h: "trim (substring (js ''abcdefghijkl'') 0 (int (length (js ''abcdefghijkl'')) div 2))
             = js ''abcdef''"
    "trim (substringFrom (js ''abcdefghijkl'') (int (length (js ''abcdefghijkl'')) div 2))
             = js ''ghijkl''"
    by code_simp+
  show ?thesis
    using processChunkSafe_on_failure[of "\<lambda>t. None" "js ''abcdefghi''" noIndexing]
      processChunkSafe_on_failure[of shortOnly "js ''abcdefghijkl''" noIndexing]
      processChunkSafe_on_failure[of shortOnly "js ''abcdef''" noIndexing]
      processChunkSafe_on_failure[of shortOnly "js ''ghijkl''" noIndexing] l
    by (simp add: h shortOnly_def halfRun_def appendIndexing_def noIndexing_def)
qed

section \<open>Properties of \<open>cosineSimilarity\<close> and the ranking\<close>

lemma jsMul_NaN_right: "jsMul a NaN = NaN"
  by (cases a) simp_all

lemma jsAdd_NaN_right: "jsAdd a NaN = NaN"
  by (cases a) simp_all

lemma cosine_dot_NaN: "fst (foldl (cosineStep v1 v2) (NaN, m1, m2) ks) = NaN"
  by (induction ks arbitrary: m1 m2) (simp_all add: cosineStep_def)

lemma cosine_shorter_NaN:
  assumes "length v2 < length v1"
  shows "cosineSimilarity v1 v2 = NaN"
proof -
  have sp: "[0..<length v1] = [0..<length v2] @ length v2 # [Suc (length v2)..<length v1]"
    using assms
    by (metis less_imp_le_nat upt_add_eq_append upt_conv_Cons le_add_diff_inverse zero_le)
  obtain d a b where
    st: "foldl (cosineStep v1 v2) (Fin 0, Fin 0, Fin 0) [0..<length v2] = (d, a, b)"
    by (metis prod_cases3)
  obtain a' b' where st2: "cosineStep v1 v2 (d, a, b) (length v2) = (NaN, a', b')"
    by (simp add: cosineStep_def elemAt_def jsMul_NaN_right jsAdd_NaN_right)
  have "fst (foldl (cosineStep v1 v2) (Fin 0, Fin 0, Fin 0) [0..<length v1]) = NaN"
    by (subst sp) (simp add: st st2 cosine_dot_NaN)
  then show ?thesis
    by (auto simp: cosineSimilarity_def split: prod.splits)
qed

lemma cosine_longer_ignored:
  assumes "length v1 \<le> length v2"
  shows "cosineSimilarity v1 v2 = cosineSimilarity v1 (take (length v1) v2)"
proof -
  have "foldl (cosineStep v1 v2) s0 ks = foldl (cosineStep v1 (take (length v1) v2)) s0 ks"
    if "\<forall>i \<in> set ks. i < length v1" for ks s0
    using that
  proof (induction ks arbitrary: s0)
    case Nil
    then show ?case by simp
  next
    case (Cons i ks)
    then have "cosineStep v1 v2 s0 i = cosineStep v1 (take (length v1) v2) s0 i"
      using assms by (simp add: cosineStep_def elemAt_def)
    with Cons show ?case by simp
  qed
  from this[of "[0..<length v1]"] show ?thesis
    by (simp add: cosineSimilarity_def)
qed

lemma example_scores:
  "cosineSimilarity [Fin 1, Fin 0] [Fin 0, Fin 1] = Fin 0"
  "cosineSimilarity [Fin 1, Fin 0] [Fin 1, Fin 0] = Fin 1"
  "cosineSimilarity [Fin 1, Fin 0] [Fin 0, Fin 0] = NaN"
  "cosineSimilarity [Fin 1, Fin 0] [Fin 1] = NaN"
  "cosineSimilarity [Fin 1] [Fin 1, Fin 5] = Fin 1"
  "cosineSimilarity [Fin 0, Fin 0] [Fin 1, Fin 0] = NaN"
  by (simp_all add: cosineSimilarity_def cosineStep_def elemAt_def upt_rec)

text \<open>
  C6, as stated, fails: neither \<open>cosineSimilarity\<close> nor the ranking compares the lengths, and
  no read of a vector raises. With a query of dimension 1 and a fragment embedding of
  dimension 2 a score is computed and the fragment is ranked.
\<close>

theorem cosine_mismatch_counterexample:
  "cosineSimilarity [Fin 1] [Fin 1, Fin 5] = Fin 1
   \<and> rankTop3 [Fin 1] [[Fin 1, Fin 5]] = [\<lparr>idx = 0, score = Fin 1\<rparr>]"
  by (simp add: rankTop3_def rankAll_def scoreAll_def arraySort_def example_scores)

text \<open>
  C6, amended: for a query embedding and a fragment embedding of unequal lengths no error is
  raised and a score is returned: NaN when the fragment embedding is the shorter one, and the
  score of the query against the fragment embedding cut to the query's length when it is the
  longer one.
\<close>

theorem cosine_length_mismatch:
  "(length v2 < length v1 \<longrightarrow> cosineSimilarity v1 v2 = NaN)
   \<and> (length v1 \<le> length v2 \<longrightarrow>
        cosineSimilarity v1 v2 = cosineSimilarity v1 (take (length v1) v2))"
  using cosine_shorter_NaN cosine_longer_ignored by blast

theorem cosine_length_mismatch_witness:
  "cosineSimilarity [Fin 1, Fin 0] [Fin 1] = NaN
   \<and> cosineSimilarity [Fin 1] [Fin 1, Fin 5] = cosineSimilarity [Fin 1] [Fin 1]"
  using cosine_length_mismatch[of "[Fin 1]" "[Fin 1, Fin 0]"]
    cosine_length_mismatch[of "[Fin 1, Fin 5]" "[Fin 1]"]
  by simp

subsection \<open>The ranking when no score is NaN\<close>

lemma isPositive_byScore:
  "score a \<noteq> NaN \<Longrightarrow> score b \<noteq> NaN \<Longrightarrow>
   isPositive (byScore a b) = jsLess (score a) (score b)"
  by (cases "score a"; cases "score b") (simp_all add: byScore_def jsSub_def)

lemma jsLess_trans: "jsLess a b \<Longrightarrow> jsLess b c \<Longrightarrow> jsLess a c"
  by (cases a; cases b; cases c) simp_all

lemma jsLess_total: "a \<noteq> NaN \<Longrightarrow> b \<noteq> NaN \<Longrightarrow> jsLess a b \<or> a = b \<or> jsLess b a"
  by (cases a; cases b) auto

lemma set_sortInsert: "set (sortInsert cmp x ys) = insert x (set ys)"
  by (induction ys) auto

lemma mset_sortInsert: "mset (sortInsert cmp x ys) = add_mset x (mset ys)"
  by (induction ys) auto

lemma mset_arraySort: "mset (arraySort cmp xs) = mset xs"
  by (induction xs) (simp_all add: arraySort_def mset_sortInsert)

lemma length_arraySort: "length (arraySort cmp xs) = length xs"
  using mset_arraySort[of cmp xs] by (metis size_mset)

lemma ranksBefore_trans: "ranksBefore a b \<Longrightarrow> ranksBefore b c \<Longrightarrow> ranksBefore a c"
  unfolding ranksBefore_def using jsLess_trans by (metis less_trans)

lemma sorted_sortInsert:
  assumes "score x \<noteq> NaN" "\<forall>y \<in> set ys. score y \<noteq> NaN"
    and "sorted_wrt ranksBefore ys" "\<forall>y \<in> set ys. idx x < idx y"
  shows "sorted_wrt ranksBefore (sortInsert byScore x ys)"
  using assms(2-)
proof (induction ys)
  case Nil
  then show ?case by simp
next
  case (Cons y ys)
  show ?case
  proof (cases "jsLess (score x) (score y)")
    case True
    then have "ranksBefore y x" by (simp add: ranksBefore_def)
    with Cons True assms(1) show ?thesis
      by (auto simp: isPositive_byScore set_sortInsert)
  next
    case False
    then have xy: "ranksBefore x y"
      using jsLess_total[of "score x" "score y"] assms(1) Cons.prems
      by (auto simp: ranksBefore_def)
    have "ranksBefore x z" if "z \<in> set ys" for z
      using xy Cons.prems(2) that ranksBefore_trans by auto
    with False xy Cons.prems assms(1) show ?thesis
      by (auto simp: isPositive_byScore)
  qed
qed

lemma sorted_arraySort:
  assumes "\<forall>x \<in> set xs. score x \<noteq> NaN" "sorted_wrt (\<lambda>a b. idx a < idx b) xs"
  shows "sorted_wrt ranksBefore (arraySort byScore xs)"
  using assms
proof (induction xs)
  case Nil
  then show ?case by (simp add: arraySort_def)
next
  case (Cons x xs)
  have s: "set (arraySort byScore xs) = set xs"
    using mset_arraySort[of byScore xs] by (metis set_mset_mset)
  have "sorted_wrt ranksBefore (sortInsert byScore x (arraySort byScore xs))"
    using Cons by (intro sorted_sortInsert) (auto simp: s)
  then show ?case by (simp add: arraySort_def)
qed

lemma scoreAll_nth:
  "scoreAll q embs
     = map (\<lambda>i. \<lparr>idx = i, score = cosineSimilarity q (embs ! i)\<rparr>) [0..<length embs]"
  by (rule nth_equalityI) (simp_all add: scoreAll_def)

lemma scoreAll_idx: "sorted_wrt (\<lambda>a b. idx a < idx b) (scoreAll q embs)"
  by (simp add: scoreAll_nth sorted_wrt_map)

lemma rank_instance:
  "scoreAll q embs = scoreAllWith (cosineSimilarity q) embs"
  "rankAll q embs = rankAllWith (cosineSimilarity q) embs"
  "rankTop3 q embs = rankTop3With (cosineSimilarity q) embs"
  by (simp_all add: scoreAll_def scoreAllWith_def rankAll_def rankAllWith_def rankTop3_def
      rankTop3With_def)

lemma scoreAllWith_nth:
  "scoreAllWith sc embs = map (\<lambda>i. \<lparr>idx = i, score = sc (embs ! i)\<rparr>) [0..<length embs]"
  by (rule nth_equalityI) (simp_all add: scoreAllWith_def)

lemma scoreAllWith_idx: "sorted_wrt (\<lambda>a b. idx a < idx b) (scoreAllWith sc embs)"
  by (simp add: scoreAllWith_nth sorted_wrt_map)

text \<open>
  C7, as stated, fails: the claim covers every query and every fragment embedding of equal
  dimension, so also a vector of zero magnitude, whose score is NaN. The comparator then
  answers NaN, which the sort reads as "equal", and the order is no longer descending. With
  scores 0, NaN, 1 the array is left as it is and the best fragment (score 1) comes last;
  with scores NaN, 1 (a comparator every conforming sort must treat as "all equal") the NaN
  fragment is ranked before the fragment of score 1.
\<close>

theorem rank_counterexample:
  "rankTop3 [Fin 1, Fin 0] [[Fin 0, Fin 1], [Fin 0, Fin 0], [Fin 1, Fin 0]]
     = [\<lparr>idx = 0, score = Fin 0\<rparr>, \<lparr>idx = 1, score = NaN\<rparr>, \<lparr>idx = 2, score = Fin 1\<rparr>]
   \<and> rankTop3 [Fin 1, Fin 0] [[Fin 0, Fin 0], [Fin 1, Fin 0]]
     = [\<lparr>idx = 0, score = NaN\<rparr>, \<lparr>idx = 1, score = Fin 1\<rparr>]"
  by (simp add: rankTop3_def rankAll_def scoreAll_def arraySort_def byScore_def jsSub_def
      example_scores upt_rec)

text \<open>
  C7, amended: for every query embedding and every sequence of stored fragment embeddings,
  whatever values the computation of the scores gives, provided none of the computed scores
  is NaN: the sorted array is a rearrangement of the scored fragments in which a fragment
  comes before another exactly when its score is higher, or the scores are equal and it comes
  first in the index (\<open>ranksBefore\<close>: descending, ties in original order); the retrieval takes
  the first 3 of it, all of them when there are fewer than 3. The retrieval of \<open>runChatTurn\<close>
  is these steps on the scores of \<open>cosineSimilarity\<close>.
\<close>

theorem rank_sorted_stable:
  assumes "\<forall>e \<in> set embs. sc e \<noteq> NaN"
  shows "sorted_wrt ranksBefore (rankAllWith sc embs)
    \<and> mset (rankAllWith sc embs) = mset (scoreAllWith sc embs)
    \<and> rankTop3With sc embs = take 3 (rankAllWith sc embs)
    \<and> length (rankTop3With sc embs) = min 3 (length embs)
    \<and> rankTop3 q embs = rankTop3With (cosineSimilarity q) embs"
proof -
  have "\<forall>x \<in> set (scoreAllWith sc embs). score x \<noteq> NaN"
    using assms by (auto simp: scoreAllWith_nth)
  then have "sorted_wrt ranksBefore (rankAllWith sc embs)"
    unfolding rankAllWith_def by (intro sorted_arraySort scoreAllWith_idx)
  moreover have "length (scoreAllWith sc embs) = length embs"
    by (simp add: scoreAllWith_def)
  ultimately show ?thesis
    by (simp add: rankAllWith_def rankTop3With_def mset_arraySort length_arraySort rank_instance)
qed

theorem rank_sorted_stable_witness:
  "rankTop3With doubleScore [[Fin 1, Fin (- 1)], [Fin 1, Fin 1], [Fin 3, Fin 3], [Fin 3, Fin 3]]
     = [\<lparr>idx = 2, score = Fin 1\<rparr>, \<lparr>idx = 3, score = Fin 1\<rparr>,
        \<lparr>idx = 1, score = Fin (1 - 1 / 2 ^ 52)\<rparr>]
   \<and> sorted_wrt ranksBefore
        (rankAllWith doubleScore [[Fin 1, Fin (- 1)], [Fin 1, Fin 1], [Fin 3, Fin 3], [Fin 3, Fin 3]])"
proof -
  have h: "\<forall>e \<in> set [[Fin 1, Fin (- 1)], [Fin 1, Fin 1], [Fin 3, Fin 3], [Fin 3, Fin 3]].
             doubleScore e \<noteq> NaN"
    by (simp add: doubleScore_def)
  have "rankTop3With doubleScore [[Fin 1, Fin (- 1)], [Fin 1, Fin 1], [Fin 3, Fin 3], [Fin 3, Fin 3]]
     = [\<lparr>idx = 2, score = Fin 1\<rparr>, \<lparr>idx = 3, score = Fin 1\<rparr>,
        \<lparr>idx = 1, score = Fin (1 - 1 / 2 ^ 52)\<rparr>]"
    by (simp add: rankTop3With_def rankAllWith_def scoreAllWith_def arraySort_def byScore_def
        jsSub_def doubleScore_def upt_rec)
  with rank_sorted_stable[OF h] show ?thesis by simp
qed

subsection \<open>A query of zero magnitude\<close>

lemma zeroish_mul: "zeroish (jsMul (Fin 0) x)"
  by (cases x) (simp_all add: zeroish_def)

lemma zeroish_add: "zeroish a \<Longrightarrow> zeroish b \<Longrightarrow> zeroish (jsAdd a b)"
  by (auto simp: zeroish_def)

lemma zeroish_div: "zeroish a \<Longrightarrow> zeroish b \<Longrightarrow> jsDiv a b = NaN"
  by (auto simp: zeroish_def)

lemma cosine_zero_fold:
  assumes "\<forall>x \<in> set v1. x = Fin 0" "\<forall>i \<in> set ks. i < length v1" "zeroish d"
  shows "\<exists>d' m2'. foldl (cosineStep v1 v2) (d, Fin 0, m2) ks = (d', Fin 0, m2') \<and> zeroish d'"
  using assms(2,3)
proof (induction ks arbitrary: d m2)
  case Nil
  then show ?case by simp
next
  case (Cons i ks)
  then have e: "elemAt v1 i = Fin 0"
    using assms(1) by (simp add: elemAt_def)
  have "zeroish (jsAdd d (jsMul (Fin 0) (elemAt v2 i)))"
    using Cons.prems(2) by (simp add: zeroish_add zeroish_mul)
  with Cons.IH[of "jsAdd d (jsMul (Fin 0) (elemAt v2 i))"
      "jsAdd m2 (jsMul (elemAt v2 i) (elemAt v2 i))"] Cons.prems(1)
  show ?case by (simp add: cosineStep_def e)
qed

lemma cosine_zero_NaN:
  assumes "\<forall>x \<in> set v1. x = Fin 0"
  shows "cosineSimilarity v1 v2 = NaN"
proof -
  from cosine_zero_fold[OF assms, of "[0..<length v1]" "Fin 0" v2 "Fin 0"]
  obtain d' m2' where
    f: "foldl (cosineStep v1 v2) (Fin 0, Fin 0, Fin 0) [0..<length v1] = (d', Fin 0, m2')"
      "zeroish d'"
    by (auto simp: zeroish_def)
  have "zeroish (jsMul (Fin 0) (jsSqrt m2'))" by (rule zeroish_mul)
  with f show ?thesis by (simp add: cosineSimilarity_def zeroish_div)
qed

lemma sortInsert_front:
  "(\<And>y. y \<in> set ys \<Longrightarrow> \<not> isPositive (cmp x y)) \<Longrightarrow> sortInsert cmp x ys = x # ys"
  by (cases ys) simp_all

lemma arraySort_all_NaN: "\<forall>x \<in> set xs. score x = NaN \<Longrightarrow> arraySort byScore xs = xs"
proof (induction xs)
  case Nil
  then show ?case by (simp add: arraySort_def)
next
  case (Cons x xs)
  then have "arraySort byScore xs = xs" by simp
  moreover have "sortInsert byScore x xs = x # xs"
    using Cons.prems by (intro sortInsert_front) (simp add: byScore_def jsSub_def)
  ultimately show ?case by (simp add: arraySort_def)
qed

text \<open>
  C10: there are embedding vectors, one of zero magnitude, for which \<open>cosineSimilarity\<close>
  returns NaN, and the ranking still returns up to 3 fragments. More generally: whenever all
  components of the query are zero, the score against any vector is NaN (0 / 0, the division
  is unguarded), every comparison of the sort answers NaN, and the ranking returns the first
  3 fragments in index order (all of them when there are fewer).
\<close>

theorem zero_query_NaN:
  assumes "\<forall>x \<in> set q. x = Fin 0"
  shows "cosineSimilarity q v = NaN
    \<and> rankTop3 q embs = take 3 (map (\<lambda>i. \<lparr>idx = i, score = NaN\<rparr>) [0..<length embs])
    \<and> length (rankTop3 q embs) = min 3 (length embs)"
proof -
  have s: "scoreAll q embs = map (\<lambda>i. \<lparr>idx = i, score = NaN\<rparr>) [0..<length embs]"
    by (simp add: scoreAll_nth cosine_zero_NaN[OF assms])
  then have "arraySort byScore (scoreAll q embs) = scoreAll q embs"
    by (intro arraySort_all_NaN) simp
  with s show ?thesis
    by (simp add: cosine_zero_NaN[OF assms] rankTop3_def rankAll_def)
qed

theorem zero_query_NaN_witness:
  "cosineSimilarity [Fin 0, Fin 0] [Fin 1, Fin 0] = NaN
   \<and> rankTop3 [Fin 0, Fin 0] [[Fin 1, Fin 0], [Fin 0, Fin 1], [Fin 1, Fin 1], [Fin 2, Fin 0]]
       = [\<lparr>idx = 0, score = NaN\<rparr>, \<lparr>idx = 1, score = NaN\<rparr>, \<lparr>idx = 2, score = NaN\<rparr>]"
proof -
  have h: "\<forall>x \<in> set [Fin 0, Fin 0]. x = Fin 0" by simp
  show ?thesis
    using zero_query_NaN[OF h, of "[Fin 1, Fin 0]"
        "[[Fin 1, Fin 0], [Fin 0, Fin 1], [Fin 1, Fin 1], [Fin 2, Fin 0]]"]
    by (simp add: upt_rec)
qed

section \<open>Properties of \<open>loadModel\<close> and of the upload handler\<close>

text \<open>
  What a load that goes through does to the index is decided by the tag \<open>docState.modelUrl\<close>
  alone; and the upload handler writes the selector's value into that tag, whatever model the
  runtime has loaded.
\<close>

lemma loadModel_by_tag:
  assumes "\<not> (btnLoadDisabled a \<and> wllama a = None)"
    and "modelSelector a \<noteq> []" and "loadFailure env = None"
  shows "map_option loadedUrl (wllama (loadModel env forcedNBatch a)) = Some (modelSelector a)
       \<and> (chunks (docState a) \<noteq> [] \<and> modelUrl (docState a) \<noteq> modelSelector a \<longrightarrow>
            docState (loadModel env forcedNBatch a) = (docState a)\<lparr>embeddings := []\<rparr>
          \<and> warnEl (loadModel env forcedNBatch a) = warnModelSwitched)
       \<and> (chunks (docState a) = [] \<or> modelUrl (docState a) = modelSelector a \<longrightarrow>
            docState (loadModel env forcedNBatch a) = docState a
          \<and> warnEl (loadModel env forcedNBatch a) = [])"
  using assms
  by (auto simp: loadModel_def Let_def setStatus_def setWarn_def split: option.splits)

lemma indexDocument_tag:
  assumes "indexDocument env a = Some a'" "fileName env = Some f" "wllama a = Some w"
    "extraction env = Inr pages"
  shows "modelUrl (docState a') = modelSelector a
    \<and> wllama a' = Some (w\<lparr>embeddingsMode := True\<rparr>)
    \<and> embeddings (docState a') =
        embeddingsAcc (foldl (\<lambda>s c. processChunkSafe (embedWith env (loadedUrl w)) c s) noIndexing
          (filter (\<lambda>c. 0 < length c)
            (concat (the (those (map (ensureChunkSize (tokenizeWith env (loadedUrl w)))
               (the (chunkText (pageText pages) 600 100))))))))"
  using assms
  by (auto simp: indexDocument_def Let_def setStatus_def setEmbeddingsMode_def
      split: Option.bind_splits)

lemma upload_text: "pageText [[js ''hello,'', js ''world!'']] = js ''hello, world!'' @ [0x000A]"
  by (simp add: pageText_def js_def)

lemma upload_chunks: "chunkText (js ''hello, world!'' @ [0x000A]) 600 100 = Some [js ''hello, world!'']"
  by code_simp

lemma upload_sized:
  "ensureChunkSize (map (\<lambda>c. 0)) (js ''hello, world!'') = Some [js ''hello, world!'']"
  by (subst ensureChunkSize.simps) (simp add: js_def)

lemma upload_nonempty: "js ''hello, world!'' \<noteq> []"
  by (simp add: js_def)

lemma modelA_B: "modelA \<noteq> modelB" "modelA \<noteq> []" "modelB \<noteq> []"
  by (simp_all add: modelA_def modelB_def js_def)

lemma loaded_A:
  "loadModel loadOk None initialApp =
     initialApp\<lparr>wllama := Some \<lparr>loadedUrl = modelA, modelLoaded = True, embeddingsMode = True\<rparr>,
       statusEl := StatusModelReady True True, btnSendDisabled := False,
       btnLoadText := js ''Switch model''\<rparr>"
  by (simp add: loadModel_def loadOk_def initialApp_def modelA_def setStatus_def setWarn_def Let_def js_def)

lemma upload_result:
  "indexDocument uploadEnv ((loadModel loadOk None initialApp)\<lparr>modelSelector := modelB\<rparr>) = Some uploaded"
  unfolding loaded_A
  by (simp add: indexDocument_def uploadEnv_def upload_text upload_chunks upload_sized
      upload_nonempty processChunkSafe_ok noIndexing_def setStatus_def setEmbeddingsMode_def
      uploaded_def Let_def)

text \<open>
  C8 (the code departs from the claim). The claim: loading a model other than the one that
  produced the index clears the embeddings and warns, and loading the model that produced it
  leaves them. The source says the same of its tag (\<open>modelUrl\<close>: "Model used to generate these
  embeddings"; "If a document was already loaded, its embeddings are now invalid"), but the
  upload handler fills the tag with \<open>modelSelector.value\<close>, the model selected when indexing
  ends, not the model loaded. Session: load the first model; select the second without
  loading it; upload (the embeddings are computed by the first model, the tag is the second);
  press the load button. The second model is loaded, the tag equals the selection, the
  embeddings of the first model are kept and no warning is shown. From the same state,
  selecting the first model again and loading it clears the embeddings that it computed
  itself.
\<close>

theorem switch_keeps_stale_embeddings:
  "indexDocument uploadEnv ((loadModel loadOk None initialApp)\<lparr>modelSelector := modelB\<rparr>) = Some uploaded
   \<and> map_option loadedUrl (wllama uploaded) = Some modelA
   \<and> embeddings (docState uploaded) = [[Fin 1]]
   \<and> modelUrl (docState uploaded) = modelB
   \<and> map_option loadedUrl (wllama (loadModel loadOk None uploaded)) = Some modelB
   \<and> embeddings (docState (loadModel loadOk None uploaded)) = [[Fin 1]]
   \<and> warnEl (loadModel loadOk None uploaded) = []
   \<and> map_option loadedUrl (wllama (loadModel loadOk None (uploaded\<lparr>modelSelector := modelA\<rparr>)))
       = Some modelA
   \<and> embeddings (docState (loadModel loadOk None (uploaded\<lparr>modelSelector := modelA\<rparr>))) = []
   \<and> warnEl (loadModel loadOk None (uploaded\<lparr>modelSelector := modelA\<rparr>)) = warnModelSwitched"
proof -
  have u: "\<not> (btnLoadDisabled uploaded \<and> wllama uploaded = None)"
    "modelSelector uploaded = modelB" "modelUrl (docState uploaded) = modelB"
    "chunks (docState uploaded) \<noteq> []" "embeddings (docState uploaded) = [[Fin 1]]"
    "map_option loadedUrl (wllama uploaded) = Some modelA"
    by (simp_all add: uploaded_def initialApp_def)
  have l: "loadFailure loadOk = None" by (simp add: loadOk_def)
  have b: "docState (loadModel loadOk None uploaded) = docState uploaded
      \<and> warnEl (loadModel loadOk None uploaded) = []
      \<and> map_option loadedUrl (wllama (loadModel loadOk None uploaded)) = Some modelB"
    using loadModel_by_tag[of uploaded loadOk None] u l modelA_B by simp
  have a: "docState (loadModel loadOk None (uploaded\<lparr>modelSelector := modelA\<rparr>))
        = (docState uploaded)\<lparr>embeddings := []\<rparr>
      \<and> warnEl (loadModel loadOk None (uploaded\<lparr>modelSelector := modelA\<rparr>)) = warnModelSwitched
      \<and> map_option loadedUrl (wllama (loadModel loadOk None (uploaded\<lparr>modelSelector := modelA\<rparr>)))
          = Some modelA"
    using loadModel_by_tag[of "uploaded\<lparr>modelSelector := modelA\<rparr>" loadOk None] u l modelA_B
    by simp
  show ?thesis
    using upload_result u a b by simp
qed

section \<open>Properties of \<open>runChatTurn\<close>\<close>

lemma setAssistantDiv_fields:
  "requests (setAssistantDiv t a) = requests a"
  "messages (setAssistantDiv t a) = messages a"
  "wllama (setAssistantDiv t a) = wllama a"
  by (simp_all add: setAssistantDiv_def split: list.splits prod.splits)

lemma setAssistantDiv_last:
  "chat a = pre @ [(r, x)] \<Longrightarrow> chat (setAssistantDiv t a) = pre @ [(r, t)]"
  by (simp add: setAssistantDiv_def)

lemma consume_fields:
  "requests (snd (consume dec ys st a)) = requests a
   \<and> messages (snd (consume dec ys st a)) = messages a
   \<and> fst (consume dec ys st a) = foldl (\<lambda>st c. accStep dec c st) st ys"
  by (induction ys arbitrary: st a) (simp_all add: Let_def setAssistantDiv_fields)

lemma consume_chat:
  "chat a = pre @ [(r, x)] \<Longrightarrow> \<exists>y. chat (snd (consume dec ys st a)) = pre @ [(r, y)]"
proof (induction ys arbitrary: st a x)
  case Nil
  then show ?case by simp
next
  case (Cons c ys)
  show ?case
  proof (cases "0 < length (fst (accStep dec c st))")
    case True
    from Cons.IH[OF setAssistantDiv_last[OF Cons.prems, of "fst (accStep dec c st)"]] True
    show ?thesis by (simp add: Let_def)
  next
    case False
    with Cons.IH[OF Cons.prems] show ?thesis by (simp add: Let_def)
  qed
qed

lemma retrieveContext_fields:
  "requests (snd (retrieveContext env u a)) = requests a"
  "messages (snd (retrieveContext env u a)) = messages a"
  "chat (snd (retrieveContext env u a)) = chat a"
  "(wllama (snd (retrieveContext env u a)) = None) = (wllama a = None)"
  by (auto simp: retrieveContext_def setWarn_def setEmbeddingsMode_def Let_def split: sum.splits)

lemma onError_requests: "requests (onError env acc msg a) = requests a"
  by (simp add: onError_def pushAssistant_def setAssistantDiv_fields)

lemma generate_requests:
  assumes "wllama a \<noteq> None"
  shows "requests (generate env a) =
           requests a @ (if streamEndsEmpty env \<and> \<not> aborted env
                         then [streamRequest (messages a), fallbackRequest (messages a)]
                         else [streamRequest (messages a)])"
proof -
  obtain w where w: "wllama a = Some w" using assms by auto
  show ?thesis
  proof (cases "completion env")
    case (Inl msg)
    then show ?thesis
      by (simp add: generate_def w streamEndsEmpty_def onError_requests)
  next
    case (Inr p)
    obtain ys ending where p: "p = (ys, ending)" by (cases p)
    let ?a1 = "a\<lparr>requests := requests a @ [streamRequest (messages a)]\<rparr>"
    obtain acc d a2 where c: "consume (decode env) ys ([], decoder0 env) ?a1 = ((acc, d), a2)"
      by (metis prod.exhaust)
    from consume_fields[of "decode env" ys "([], decoder0 env)" ?a1] c
    have fo: "foldl (\<lambda>st c. accStep (decode env) c st) ([], decoder0 env) ys = (acc, d)"
      and f0: "requests a2 = requests a @ [streamRequest (messages a)]" "messages a2 = messages a"
      by simp_all
    have f: "requests a2 = requests a @ [streamRequest (messages a)]" "messages a2 = messages a"
      "acc = accumulated env ys"
      using f0 by (simp_all add: accumulated_def fo)
    show ?thesis
      using f
      by (cases ending; cases "fallback env")
        (simp_all add: generate_def w Inr p c streamEndsEmpty_def onError_requests
          pushAssistant_def setAssistantDiv_fields Let_def)
  qed
qed

lemma generate_fallback_output:
  assumes "wllama a \<noteq> None" "streamEndsEmpty env" "\<not> aborted env" "fallback env = Inr out"
    and "chat a = pre @ [(r, x)]"
  shows "messages (generate env a) = messages a @ [\<lparr>role = Assistant, content = out\<rparr>]
    \<and> chat (generate env a) = pre @ [(r, out)]"
proof -
  obtain w where w: "wllama a = Some w" using assms by auto
  from assms(2) obtain ys where ys: "completion env = Inr (ys, None)" "accumulated env ys = []"
    by (auto simp: streamEndsEmpty_def split: sum.splits)
  let ?a1 = "a\<lparr>requests := requests a @ [streamRequest (messages a)]\<rparr>"
  obtain acc d a2 where c: "consume (decode env) ys ([], decoder0 env) ?a1 = ((acc, d), a2)"
    by (metis prod.exhaust)
  from consume_fields[of "decode env" ys "([], decoder0 env)" ?a1] c
  have fo: "foldl (\<lambda>st c. accStep (decode env) c st) ([], decoder0 env) ys = (acc, d)"
    and f0: "messages a2 = messages a"
    by simp_all
  have f: "messages a2 = messages a" "acc = []"
    using f0 ys(2) by (simp_all add: accumulated_def fo)
  have "chat ?a1 = pre @ [(r, x)]" using assms(5) by simp
  from consume_chat[OF this, of "decode env" ys "([], decoder0 env)"] c
  obtain y where y: "chat a2 = pre @ [(r, y)]" by auto
  then have "chat (a2\<lparr>requests := requests a2 @ [fallbackRequest (messages a2)]\<rparr>) = pre @ [(r, y)]"
    by simp
  from setAssistantDiv_last[OF this, of out]
  show ?thesis
    using f assms(3,4)
    by (simp add: generate_def w ys c pushAssistant_def setAssistantDiv_fields Let_def)
qed

text \<open>
  C9: in a turn with a runtime present, the calls of \<open>createChatCompletion\<close> are the streaming
  request followed by exactly one non-streaming request (\<open>nPredict\<close> 128, temperature 0.1)
  when the stream finishes with zero accumulated output and the turn was not cancelled, and
  the streaming request alone in every other case (output accumulated, turn cancelled, or
  the stream failing). When the fallback request answers, its answer is the assistant message
  recorded for the turn and the text shown.
\<close>

theorem fallback_rule:
  assumes "wllama a \<noteq> None"
  shows "requests (runChatTurn env userText a) =
           requests a @ (if streamEndsEmpty env \<and> \<not> aborted env
                         then [streamRequest (turnMessages env userText a),
                               fallbackRequest (turnMessages env userText a)]
                         else [streamRequest (turnMessages env userText a)])
    \<and> (streamEndsEmpty env \<and> \<not> aborted env \<and> fallback env = Inr out \<longrightarrow>
          messages (runChatTurn env userText a)
            = turnMessages env userText a @ [\<lparr>role = Assistant, content = out\<rparr>]
        \<and> chat (runChatTurn env userText a) = chat a @ [(User, userText), (Assistant, out)])
    \<and> nPredict (fallbackRequest (turnMessages env userText a)) = 128
    \<and> temp (fallbackRequest (turnMessages env userText a)) = 1 / 10
    \<and> \<not> stream (fallbackRequest (turnMessages env userText a))"
proof -
  obtain c a1 where r: "retrieveContext env userText a = (c, a1)" by (cases "retrieveContext env userText a")
  from retrieveContext_fields[of env userText a] r assms
  have f: "requests a1 = requests a" "messages a1 = messages a" "chat a1 = chat a" "wllama a1 \<noteq> None"
    by simp_all
  let ?a6 = "setEmbeddingsMode False
     ((setStatus StatusThinking
        (addMsg Assistant [] (addMsg User userText
           (a1\<lparr>messages := messages a1 @ [\<lparr>role = User, content = userText @ c\<rparr>]\<rparr>))))
      \<lparr>abortController := True, btnStopDisabled := False, btnSendDisabled := True\<rparr>)"
  have a6: "wllama ?a6 \<noteq> None" "requests ?a6 = requests a"
    "messages ?a6 = turnMessages env userText a"
    "chat ?a6 = (chat a @ [(User, userText)]) @ [(Assistant, [])]"
    using f by (simp_all add: setEmbeddingsMode_def setStatus_def addMsg_def turnMessages_def r)
  have run: "runChatTurn env userText a =
      (setStatus StatusReady ((generate env ?a6)\<lparr>abortController := False\<rparr>))
         \<lparr>btnStopDisabled := True, btnSendDisabled := False\<rparr>"
    by (simp add: runChatTurn_def r Let_def)
  have 1: "requests (runChatTurn env userText a) =
           requests a @ (if streamEndsEmpty env \<and> \<not> aborted env
                         then [streamRequest (turnMessages env userText a),
                               fallbackRequest (turnMessages env userText a)]
                         else [streamRequest (turnMessages env userText a)])"
    unfolding run using generate_requests[OF a6(1), of env] a6(2,3)
    by (simp add: setStatus_def)
  have 2: "messages (runChatTurn env userText a)
            = turnMessages env userText a @ [\<lparr>role = Assistant, content = out\<rparr>]
        \<and> chat (runChatTurn env userText a) = chat a @ [(User, userText), (Assistant, out)]"
    if "streamEndsEmpty env \<and> \<not> aborted env \<and> fallback env = Inr out"
    unfolding run using generate_fallback_output[OF a6(1) _ _ _ a6(4), of env out] that a6(3)
    by (simp add: setStatus_def)
  show ?thesis using 1 2 by (simp add: fallbackRequest_def)
qed

theorem fallback_rule_witness:
  "map stream (requests (runChatTurn
       \<lparr>queryEmbedding = Inl [], completion = Inr ([], None), aborted = False,
        fallback = Inr (js ''Hi''), decode = (\<lambda>d p. ([], d)), decoder0 = (0::nat)\<rparr>
       (js ''Hello'') readyApp)) = [True, False]
   \<and> chat (runChatTurn
       \<lparr>queryEmbedding = Inl [], completion = Inr ([], None), aborted = False,
        fallback = Inr (js ''Hi''), decode = (\<lambda>d p. ([], d)), decoder0 = (0::nat)\<rparr>
       (js ''Hello'') readyApp) = [(User, js ''Hello''), (Assistant, js ''Hi'')]
   \<and> map stream (requests (runChatTurn
       \<lparr>queryEmbedding = Inl [], completion = Inr ([], None), aborted = True,
        fallback = Inr (js ''Hi''), decode = (\<lambda>d p. ([], d)), decoder0 = (0::nat)\<rparr>
       (js ''Hello'') readyApp)) = [True]"
proof -
  have w: "wllama readyApp \<noteq> None" by (simp add: readyApp_def)
  have e: "streamEndsEmpty \<lparr>queryEmbedding = Inl [], completion = Inr ([], None),
      aborted = b, fallback = Inr (js ''Hi''), decode = (\<lambda>d p. ([], d)), decoder0 = (0::nat)\<rparr>" for b
    by (simp add: streamEndsEmpty_def accumulated_def)
  show ?thesis
    using fallback_rule[OF w, of "\<lparr>queryEmbedding = Inl [], completion = Inr ([], None),
        aborted = False, fallback = Inr (js ''Hi''), decode = (\<lambda>d p. ([], d)), decoder0 = (0::nat)\<rparr>"
        "js ''Hello''" "js ''Hi''"]
      fallback_rule[OF w, of "\<lparr>queryEmbedding = Inl [], completion = Inr ([], None),
        aborted = True, fallback = Inr (js ''Hi''), decode = (\<lambda>d p. ([], d)), decoder0 = (0::nat)\<rparr>"
        "js ''Hello''" "js ''Hi''"]
    by (simp add: e streamRequest_def fallbackRequest_def) (simp add: readyApp_def initialApp_def)
qed

end
